(* ===== verification/Prelude.thy ===== *)
theory Prelude
  imports Main
begin

text \<open>
  Shared vocabulary of the development: the type synonyms for the Go types the
  program uses everywhere, the lemma collections the component theories fill, and
  the generic lemmas on lists, counting and maps their proofs share.
\<close>

section \<open>Go types\<close>

text \<open>
  A Go \<open>string\<close> is a sequence of bytes, so it is a \<^typ>\<open>char list\<close>. A
  \<open>time.Time\<close> is an instant in nanoseconds and a \<open>time.Duration\<close> a number of
  nanoseconds; both are integers here, and the places where the 64-bit range of the
  Go type matters write the range out.
\<close>

type_synonym go_time = int
type_synonym duration = int

abbreviation (input) millisecond :: duration where "millisecond \<equiv> 1000000"
abbreviation (input) second :: duration where "second \<equiv> 1000000000"
abbreviation (input) minute :: duration where "minute \<equiv> 60000000000"
abbreviation (input) hour :: duration where "hour \<equiv> 3600000000000"

section \<open>Lemma collections\<close>

named_theorems count_simps "counting elements of a list under update and append"
named_theorems inv_intros "preservation of the component invariants"

section \<open>Options\<close>

lemma case_Some_ex: "(case x of None \<Rightarrow> False | Some y \<Rightarrow> P y) \<Longrightarrow> \<exists>y. x = Some y \<and> P y"
  by (cases x) auto

section \<open>Counting list elements\<close>

text \<open>
  \<open>countP P xs\<close> is the number of elements that satisfy \<open>P\<close>. The dispatcher's
  goroutines are a list, and its invariants count the goroutines that own a
  repository or hold a semaphore token.
\<close>

definition countP :: "('a \<Rightarrow> bool) \<Rightarrow> 'a list \<Rightarrow> nat" where
  "countP P xs = length (filter P xs)"

lemma countP_Nil [count_simps]: "countP P [] = 0"
  by (simp add: countP_def)

lemma countP_Cons [count_simps]: "countP P (x # xs) = (if P x then 1 else 0) + countP P xs"
  by (simp add: countP_def)

lemma countP_append [count_simps]: "countP P (xs @ ys) = countP P xs + countP P ys"
  by (simp add: countP_def)

lemma countP_update:
  "i < length xs \<Longrightarrow>
   countP P (xs[i := y]) + (if P (xs ! i) then 1 else 0) = countP P xs + (if P y then 1 else 0)"
proof (induction xs arbitrary: i)
  case Nil
  then show ?case by simp
next
  case (Cons x xs)
  show ?case
  proof (cases i)
    case 0
    then show ?thesis by (simp add: countP_Cons)
  next
    case (Suc j)
    with Cons.prems have "j < length xs" by simp
    from Cons.IH [OF this] Suc show ?thesis by (simp add: countP_Cons)
  qed
qed

lemma countP_update_same [count_simps]:
  "i < length xs \<Longrightarrow> P y = P (xs ! i) \<Longrightarrow> countP P (xs[i := y]) = countP P xs"
  using countP_update [of i xs P y] by (simp split: if_splits)

lemma countP_pos: "i < length xs \<Longrightarrow> P (xs ! i) \<Longrightarrow> 0 < countP P xs"
  by (auto simp: countP_def length_greater_0_conv filter_empty_conv intro: nth_mem)

lemma countP_zero_iff: "countP P xs = 0 \<longleftrightarrow> (\<forall>i < length xs. \<not> P (xs ! i))"
  by (simp add: countP_def filter_empty_conv all_set_conv_all_nth)

lemma countP_le_one_unique:
  assumes "countP P xs \<le> 1" and "i < length xs" and "j < length xs"
    and "P (xs ! i)" and "P (xs ! j)"
  shows "i = j"
proof (rule ccontr)
  assume "i \<noteq> j"
  have "{i, j} \<subseteq> {n. n < length xs \<and> P (xs ! n)}" using assms by auto
  moreover have "finite {n. n < length xs \<and> P (xs ! n)}" by simp
  ultimately have "card {i, j} \<le> card {n. n < length xs \<and> P (xs ! n)}"
    by (rule card_mono [rotated])
  also have "\<dots> = countP P xs" by (simp add: countP_def length_filter_conv_card)
  finally show False using \<open>i \<noteq> j\<close> assms(1) by simp
qed

end
