(* ===== verification/Config.thy ===== *)
theory Config
  imports Prelude
begin

text \<open>
  The configuration schema (\<open>src/internal/config/config.go\<close>) and the second half of its
  loader (\<open>src/internal/config/load.go\<close>): \<open>applyDefaults\<close> and \<open>validate\<close>. The
  validation is shown to accept exactly the configurations that satisfy a declarative
  predicate. Parsing and \<open>${VAR}\<close> expansion are in \<open>Config_Load\<close>.
\<close>

section \<open>Schema\<close>

abbreviation PlatformGitLab :: string where "PlatformGitLab \<equiv> ''gitlab''"
abbreviation PlatformGitHub :: string where "PlatformGitHub \<equiv> ''github''"
abbreviation ExecutorGitLabPipeline :: string where "ExecutorGitLabPipeline \<equiv> ''gitlabPipeline''"
abbreviation ExecutorKubernetes :: string where "ExecutorKubernetes \<equiv> ''kubernetes''"
abbreviation ExecutorDocker :: string where "ExecutorDocker \<equiv> ''docker''"
abbreviation ExecutorNoop :: string where "ExecutorNoop \<equiv> ''noop''"

text \<open>
  A Go \<open>map[string]string\<close> is an association list: its order stands for the unspecified
  iteration order, and its keys are distinct.
\<close>

type_synonym gomap = "(string \<times> string) list"

record RedisConfig =
  redis_URL :: string
  redis_KeyPrefix :: string
  redis_TTL :: duration

record StoreConfig =
  store_Type :: string
  store_Redis :: RedisConfig

record LogConfig =
  log_Level :: string
  log_Format :: string

record ServerConfig =
  srv_Listen :: string
  srv_Log :: LogConfig
  srv_Debounce :: duration
  srv_MaxConcurrentRuns :: int
  srv_RunTimeout :: duration
  srv_HistorySize :: int
  srv_APIToken :: string
  srv_Store :: StoreConfig

text \<open>Defaults distinguish a nil from an empty slice: \<^const>\<open>None\<close> is nil.\<close>

record MRFilter =
  mr_SourceBranchPrefixes :: "string list option"
  mr_Authors :: "string list"

record Webhook =
  wh_Path :: string
  wh_Secret :: string
  wh_SigningSecret :: string

record Discovery =
  disc_Groups :: "string list"
  disc_ExcludeArchived :: bool

record Schedule =
  sched_Crontabs :: "string list"
  sched_Timezone :: string

record PlatformConfig =
  pc_Name :: string
  pc_Type :: string
  pc_BaseURL :: string
  pc_Token :: string
  pc_BotEmail :: string
  pc_DashboardIssueTitle :: string
  pc_AllowAnyCheckbox :: bool
  pc_MRFilter :: MRFilter
  pc_Webhook :: Webhook
  pc_Events :: "string list"
  pc_Discovery :: Discovery
  pc_Schedule :: Schedule

record ResourceConfig =
  res_Requests :: gomap
  res_Limits :: gomap

record Toleration =
  tol_Key :: string
  tol_Operator :: string
  tol_Value :: string
  tol_Effect :: string

record PodConfig =
  pod_Resources :: ResourceConfig
  pod_NodeSelector :: gomap
  pod_Tolerations :: "Toleration list"
  pod_ServiceAccountName :: string
  pod_ImagePullSecrets :: "string list"
  pod_ActiveDeadlineSeconds :: int

record ExecutorConfig =
  ec_Name :: string
  ec_Type :: string
  ec_Platform :: string
  ec_Project :: string
  ec_Ref :: string
  ec_TriggerToken :: string
  ec_Variables :: gomap
  ec_Inputs :: gomap
  ec_PollInterval :: duration
  ec_Namespace :: string
  ec_Image :: string
  ec_CachePVC :: string
  ec_JobTTL :: duration
  ec_Pod :: PodConfig
  ec_CacheVolume :: string
  ec_Pull :: bool
  ec_Env :: gomap

record Rule =
  rule_Match :: string
  rule_Executor :: string
  rule_Disabled :: bool

record Config =
  Server :: ServerConfig
  Platforms :: "PlatformConfig list"
  Executors :: "ExecutorConfig list"
  Rules :: "Rule list"

section \<open>Defaults\<close>

text \<open>\<open>if x == zero { x = d }\<close> on one field.\<close>

definition dflt :: "'a \<Rightarrow> 'a \<Rightarrow> 'a \<Rightarrow> 'a" where
  "dflt zero d x = (if x = zero then d else x)"

definition default_redis :: "RedisConfig \<Rightarrow> RedisConfig" where
  "default_redis r = r\<lparr>redis_KeyPrefix := dflt [] ''renovate-server:'' (redis_KeyPrefix r),
     redis_TTL := dflt 0 (2 * hour) (redis_TTL r)\<rparr>"

definition default_store :: "StoreConfig \<Rightarrow> StoreConfig" where
  "default_store st = st\<lparr>store_Type := dflt [] ''memory'' (store_Type st),
     store_Redis := default_redis (store_Redis st)\<rparr>"

definition default_log :: "LogConfig \<Rightarrow> LogConfig" where
  "default_log l = l\<lparr>log_Level := dflt [] ''info'' (log_Level l),
     log_Format := dflt [] ''json'' (log_Format l)\<rparr>"

definition default_server :: "ServerConfig \<Rightarrow> ServerConfig" where
  "default_server s = s\<lparr>srv_Listen := dflt [] '':8080'' (srv_Listen s),
     srv_Log := default_log (srv_Log s),
     srv_Debounce := dflt 0 (10 * second) (srv_Debounce s),
     srv_MaxConcurrentRuns := dflt 0 4 (srv_MaxConcurrentRuns s),
     srv_RunTimeout := dflt 0 (60 * minute) (srv_RunTimeout s),
     srv_HistorySize := dflt 0 100 (srv_HistorySize s),
     srv_Store := default_store (srv_Store s)\<rparr>"

definition default_platform :: "PlatformConfig \<Rightarrow> PlatformConfig" where
  "default_platform p = p\<lparr>
     pc_DashboardIssueTitle := dflt [] ''Dependency Dashboard'' (pc_DashboardIssueTitle p),
     pc_MRFilter := (pc_MRFilter p)\<lparr>mr_SourceBranchPrefixes :=
       dflt None (Some [''renovate/'']) (mr_SourceBranchPrefixes (pc_MRFilter p))\<rparr>\<rparr>"

definition default_executor :: "ExecutorConfig \<Rightarrow> ExecutorConfig" where
  "default_executor e =
     (let e = (if ec_Type e = ExecutorGitLabPipeline
               then e\<lparr>ec_Ref := dflt [] ''main'' (ec_Ref e),
                      ec_PollInterval := dflt 0 (15 * second) (ec_PollInterval e)\<rparr>
               else e)
      in if ec_Type e = ExecutorKubernetes \<and> ec_JobTTL e = 0 then e\<lparr>ec_JobTTL := hour\<rparr> else e)"

definition applyDefaults :: "Config \<Rightarrow> Config" where
  "applyDefaults c = c\<lparr>Server := default_server (Server c),
     Platforms := map default_platform (Platforms c),
     Executors := map default_executor (Executors c)\<rparr>"

section \<open>Validation\<close>

text \<open>One constructor per error message, with the values the message shows.\<close>

datatype config_error =
    RedisURLRequired | StoreTypeUnsupported string | NoPlatforms
  | PlatformNameRequired nat | DuplicatePlatformName string | PlatformTypeUnsupported string string
  | TokenRequired string | WebhookPathRequired string | WebhookSecretRequired string
  | SigningSecretUnsupported string | SecretOrSigningSecretRequired string
  | SigningSecretPrefix string | UnknownEventType string string | InvalidTimezone string string
  | InvalidCrontab string string
  | ExecutorNameRequired nat | DuplicateExecutorName string | UnknownPlatform string string
  | NotGitLabPlatform string string | ProjectRequired string | TriggerTokenRequired string
  | NamespaceRequired string | ImageRequired string | InvalidQuantity string string string
  | ExecutorTypeUnsupported string string
  | NoRules | InvalidGlob nat string | UnknownExecutor nat string | CatchAllRequired

text \<open>
  The third-party parsers and the time zone database the validation consults, each
  reduced to whether it accepts its argument.
\<close>

record validators =
  LoadLocation :: "string \<Rightarrow> bool"
  ParseStandard :: "string \<Rightarrow> bool"
  ParseQuantity :: "string \<Rightarrow> bool"
  ValidatePattern :: "string \<Rightarrow> bool"

definition hasPrefix :: "string \<Rightarrow> string \<Rightarrow> bool" where
  "hasPrefix s p \<longleftrightarrow> take (length p) s = p"

text \<open>\<open>if err := e; err != nil { return err }\<close>, followed by the rest of the body.\<close>

definition err_then :: "'e option \<Rightarrow> 'e option \<Rightarrow> 'e option" where
  "err_then e rest = (case e of Some err \<Rightarrow> Some err | None \<Rightarrow> rest)"

text \<open>A loop that returns the error of its first failing element.\<close>

fun first_err :: "('a \<Rightarrow> 'e option) \<Rightarrow> 'a list \<Rightarrow> 'e option" where
  "first_err f [] = None"
| "first_err f (x # xs) = err_then (f x) (first_err f xs)"

definition event_types :: "string set" where
  "event_types = {''merge_request'', ''issue'', ''push''}"

definition validate_webhook :: "PlatformConfig \<Rightarrow> config_error option" where
  "validate_webhook p =
     (let w = pc_Webhook p in
      if pc_Type p = PlatformGitHub then
        (if wh_Secret w = [] then Some (WebhookSecretRequired (pc_Name p))
         else if wh_SigningSecret w \<noteq> [] then Some (SigningSecretUnsupported (pc_Name p))
         else None)
      else if pc_Type p = PlatformGitLab then
        (if wh_Secret w = [] \<and> wh_SigningSecret w = []
         then Some (SecretOrSigningSecretRequired (pc_Name p))
         else if wh_SigningSecret w \<noteq> [] \<and> \<not> hasPrefix (wh_SigningSecret w) ''whsec_''
         then Some (SigningSecretPrefix (pc_Name p))
         else None)
      else None)"

definition validate_platform ::
  "validators \<Rightarrow> nat \<Rightarrow> PlatformConfig \<Rightarrow> (string \<rightharpoonup> string) \<Rightarrow> config_error option" where
  "validate_platform V i p platformNames =
     (if pc_Name p = [] then Some (PlatformNameRequired i)
      else if platformNames (pc_Name p) \<noteq> None then Some (DuplicatePlatformName (pc_Name p))
      else if pc_Type p \<noteq> PlatformGitLab \<and> pc_Type p \<noteq> PlatformGitHub
        then Some (PlatformTypeUnsupported (pc_Name p) (pc_Type p))
      else if pc_Token p = [] then Some (TokenRequired (pc_Name p))
      else if wh_Path (pc_Webhook p) = [] then Some (WebhookPathRequired (pc_Name p))
      else err_then (validate_webhook p)
        (err_then (first_err (\<lambda>ev. if ev \<in> event_types then None
                            else Some (UnknownEventType (pc_Name p) ev)) (pc_Events p))
        (if sched_Timezone (pc_Schedule p) \<noteq> [] \<and> \<not> LoadLocation V (sched_Timezone (pc_Schedule p))
         then Some (InvalidTimezone (pc_Name p) (sched_Timezone (pc_Schedule p)))
         else first_err (\<lambda>tab. if ParseStandard V tab then None else Some (InvalidCrontab (pc_Name p) tab))
                (sched_Crontabs (pc_Schedule p)))))"

fun validate_platforms ::
  "validators \<Rightarrow> nat \<Rightarrow> PlatformConfig list \<Rightarrow> (string \<rightharpoonup> string) \<Rightarrow> config_error + (string \<rightharpoonup> string)" where
  "validate_platforms V i [] platformNames = Inr platformNames"
| "validate_platforms V i (p # ps) platformNames =
     (case validate_platform V i p platformNames of
        Some e \<Rightarrow> Inl e
      | None \<Rightarrow> validate_platforms V (Suc i) ps (platformNames(pc_Name p \<mapsto> pc_Type p)))"

definition validate_quantities :: "validators \<Rightarrow> string \<Rightarrow> gomap \<Rightarrow> config_error option" where
  "validate_quantities V ename quantities =
     first_err (\<lambda>(name, val). if ParseQuantity V val then None
       else Some (InvalidQuantity ename name val)) quantities"

definition validate_executor :: "validators \<Rightarrow> (string \<rightharpoonup> string) \<Rightarrow> ExecutorConfig \<Rightarrow> config_error option" where
  "validate_executor V platformNames e =
     (if ec_Type e = ExecutorGitLabPipeline then
        (case platformNames (ec_Platform e) of
           None \<Rightarrow> Some (UnknownPlatform (ec_Name e) (ec_Platform e))
         | Some typ \<Rightarrow>
             if typ \<noteq> PlatformGitLab then Some (NotGitLabPlatform (ec_Name e) (ec_Platform e))
             else if ec_Project e = [] then Some (ProjectRequired (ec_Name e))
             else if ec_TriggerToken e = [] then Some (TriggerTokenRequired (ec_Name e))
             else None)
      else if ec_Type e = ExecutorKubernetes then
        (if ec_Namespace e = [] then Some (NamespaceRequired (ec_Name e))
         else if ec_Image e = [] then Some (ImageRequired (ec_Name e))
         else first_err (validate_quantities V (ec_Name e))
                [res_Requests (pod_Resources (ec_Pod e)), res_Limits (pod_Resources (ec_Pod e))])
      else if ec_Type e = ExecutorDocker then
        (if ec_Image e = [] then Some (ImageRequired (ec_Name e)) else None)
      else if ec_Type e = ExecutorNoop then None
      else Some (ExecutorTypeUnsupported (ec_Name e) (ec_Type e)))"

fun validate_executors ::
  "validators \<Rightarrow> (string \<rightharpoonup> string) \<Rightarrow> nat \<Rightarrow> ExecutorConfig list \<Rightarrow> string list \<Rightarrow> config_error + string list" where
  "validate_executors V platformNames i [] executorNames = Inr executorNames"
| "validate_executors V platformNames i (e # es) executorNames =
     (if ec_Name e = [] then Inl (ExecutorNameRequired i)
      else if ec_Name e \<in> set executorNames then Inl (DuplicateExecutorName (ec_Name e))
      else case validate_executor V platformNames e of
             Some err \<Rightarrow> Inl err
           | None \<Rightarrow> validate_executors V platformNames (Suc i) es (ec_Name e # executorNames))"

fun validate_rules ::
  "validators \<Rightarrow> string list \<Rightarrow> nat \<Rightarrow> Rule list \<Rightarrow> bool \<Rightarrow> config_error + bool" where
  "validate_rules V executorNames i [] hasCatchAll = Inr hasCatchAll"
| "validate_rules V executorNames i (r # rs) hasCatchAll =
     (if \<not> ValidatePattern V (rule_Match r) then Inl (InvalidGlob i (rule_Match r))
      else let hasCatchAll = (if rule_Match r = ''**'' then True else hasCatchAll) in
      if rule_Disabled r then validate_rules V executorNames (Suc i) rs hasCatchAll
      else if rule_Executor r \<notin> set executorNames then Inl (UnknownExecutor i (rule_Executor r))
      else validate_rules V executorNames (Suc i) rs hasCatchAll)"

definition validate_store :: "StoreConfig \<Rightarrow> config_error option" where
  "validate_store st =
     (if store_Type st = ''memory'' then None
      else if store_Type st = ''redis'' then
        (if redis_URL (store_Redis st) = [] then Some RedisURLRequired else None)
      else Some (StoreTypeUnsupported (store_Type st)))"

definition validate :: "validators \<Rightarrow> Config \<Rightarrow> config_error option" where
  "validate V c =
     err_then (validate_store (srv_Store (Server c)))
     (if Platforms c = [] then Some NoPlatforms
      else case validate_platforms V 0 (Platforms c) Map.empty of Inl e \<Rightarrow> Some e | Inr platformNames \<Rightarrow>
      case validate_executors V platformNames 0 (Executors c) [] of Inl e \<Rightarrow> Some e | Inr executorNames \<Rightarrow>
      if Rules c = [] then Some NoRules
      else case validate_rules V executorNames 0 (Rules c) False of
             Inl e \<Rightarrow> Some e
           | Inr hasCatchAll \<Rightarrow> if \<not> hasCatchAll then Some CatchAllRequired else None)"

section \<open>What a valid configuration is\<close>

definition valid_store :: "StoreConfig \<Rightarrow> bool" where
  "valid_store st \<longleftrightarrow>
     store_Type st = ''memory'' \<or> (store_Type st = ''redis'' \<and> redis_URL (store_Redis st) \<noteq> [])"

definition valid_webhook :: "string \<Rightarrow> Webhook \<Rightarrow> bool" where
  "valid_webhook type w \<longleftrightarrow> wh_Path w \<noteq> []
     \<and> (type = PlatformGitHub \<longrightarrow> wh_Secret w \<noteq> [] \<and> wh_SigningSecret w = [])
     \<and> (type = PlatformGitLab \<longrightarrow> (wh_Secret w \<noteq> [] \<or> wh_SigningSecret w \<noteq> [])
          \<and> (wh_SigningSecret w \<noteq> [] \<longrightarrow> hasPrefix (wh_SigningSecret w) ''whsec_''))"

definition valid_platform :: "validators \<Rightarrow> PlatformConfig \<Rightarrow> bool" where
  "valid_platform V p \<longleftrightarrow> pc_Name p \<noteq> [] \<and> pc_Type p \<in> {PlatformGitLab, PlatformGitHub}
     \<and> pc_Token p \<noteq> [] \<and> valid_webhook (pc_Type p) (pc_Webhook p)
     \<and> set (pc_Events p) \<subseteq> event_types
     \<and> (sched_Timezone (pc_Schedule p) \<noteq> [] \<longrightarrow> LoadLocation V (sched_Timezone (pc_Schedule p)))
     \<and> (\<forall>tab \<in> set (sched_Crontabs (pc_Schedule p)). ParseStandard V tab)"

definition valid_executor :: "validators \<Rightarrow> PlatformConfig list \<Rightarrow> ExecutorConfig \<Rightarrow> bool" where
  "valid_executor V ps e \<longleftrightarrow> ec_Name e \<noteq> [] \<and>
     (ec_Type e = ExecutorGitLabPipeline \<and> ec_Project e \<noteq> [] \<and> ec_TriggerToken e \<noteq> []
        \<and> (\<exists>p \<in> set ps. pc_Name p = ec_Platform e \<and> pc_Type p = PlatformGitLab)
      \<or> ec_Type e = ExecutorKubernetes \<and> ec_Namespace e \<noteq> [] \<and> ec_Image e \<noteq> []
        \<and> (\<forall>(name, val) \<in> set (res_Requests (pod_Resources (ec_Pod e)))
                          \<union> set (res_Limits (pod_Resources (ec_Pod e))). ParseQuantity V val)
      \<or> ec_Type e = ExecutorDocker \<and> ec_Image e \<noteq> []
      \<or> ec_Type e = ExecutorNoop)"

definition valid_rule :: "validators \<Rightarrow> string set \<Rightarrow> Rule \<Rightarrow> bool" where
  "valid_rule V names r \<longleftrightarrow>
     ValidatePattern V (rule_Match r) \<and> (rule_Disabled r \<or> rule_Executor r \<in> names)"

definition valid_config :: "validators \<Rightarrow> Config \<Rightarrow> bool" where
  "valid_config V c \<longleftrightarrow> valid_store (srv_Store (Server c))
     \<and> Platforms c \<noteq> [] \<and> (\<forall>p \<in> set (Platforms c). valid_platform V p)
     \<and> distinct (map pc_Name (Platforms c))
     \<and> (\<forall>e \<in> set (Executors c). valid_executor V (Platforms c) e)
     \<and> distinct (map ec_Name (Executors c))
     \<and> (\<forall>r \<in> set (Rules c). valid_rule V (ec_Name ` set (Executors c)) r)
     \<and> (\<exists>r \<in> set (Rules c). rule_Match r = ''**'')"

section \<open>Validation accepts exactly the valid configurations\<close>

lemma err_then_None [simp]: "err_then e rest = None \<longleftrightarrow> e = None \<and> rest = None"
  by (simp add: err_then_def split: option.split)

lemma first_err_None [simp]: "first_err f xs = None \<longleftrightarrow> (\<forall>x \<in> set xs. f x = None)"
  by (induction xs) auto

declare first_err.simps [simp del]

lemma validate_quantities_None:
  "validate_quantities V n q = None \<longleftrightarrow> (\<forall>(name, val) \<in> set q. ParseQuantity V val)"
  by (auto simp: validate_quantities_def split: if_splits)

lemma validate_store_iff: "validate_store st = None \<longleftrightarrow> valid_store st"
  by (simp add: validate_store_def valid_store_def)

lemma validate_webhook_iff:
  "wh_Path (pc_Webhook p) \<noteq> [] \<Longrightarrow> pc_Type p \<in> {PlatformGitLab, PlatformGitHub} \<Longrightarrow>
   validate_webhook p = None \<longleftrightarrow> valid_webhook (pc_Type p) (pc_Webhook p)"
  by (auto simp: validate_webhook_def valid_webhook_def Let_def)

lemma validate_platform_iff:
  "validate_platform V i p m = None \<longleftrightarrow> m (pc_Name p) = None \<and> valid_platform V p"
proof (cases "wh_Path (pc_Webhook p) \<noteq> [] \<and> pc_Type p \<in> {PlatformGitLab, PlatformGitHub}")
  case True
  then have W: "validate_webhook p = None \<longleftrightarrow> valid_webhook (pc_Type p) (pc_Webhook p)"
    using validate_webhook_iff by blast
  have "validate_platform V i p m = None \<longleftrightarrow>
      pc_Name p \<noteq> [] \<and> m (pc_Name p) = None \<and> pc_Token p \<noteq> [] \<and> validate_webhook p = None
      \<and> (\<forall>ev \<in> set (pc_Events p). ev \<in> event_types)
      \<and> (sched_Timezone (pc_Schedule p) \<noteq> [] \<longrightarrow> LoadLocation V (sched_Timezone (pc_Schedule p)))
      \<and> (\<forall>tab \<in> set (sched_Crontabs (pc_Schedule p)). ParseStandard V tab)"
    using True by (auto simp: validate_platform_def)
  with True W show ?thesis by (auto simp: valid_platform_def subset_iff)
next
  case False
  then show ?thesis by (auto simp: validate_platform_def valid_platform_def valid_webhook_def)
qed

lemma validate_platforms_Inr:
  "validate_platforms V i ps m = Inr m' \<longleftrightarrow>
     (\<forall>p \<in> set ps. valid_platform V p) \<and> distinct (map pc_Name ps)
     \<and> (\<forall>p \<in> set ps. m (pc_Name p) = None)
     \<and> m' = m ++ map_of (map (\<lambda>p. (pc_Name p, pc_Type p)) ps)"
proof (induction ps arbitrary: i m)
  case Nil
  then show ?case by auto
next
  case (Cons p ps)
  have eq: "m(pc_Name p \<mapsto> pc_Type p) ++ map_of (map (\<lambda>p. (pc_Name p, pc_Type p)) ps)
      = m ++ map_of (map (\<lambda>p. (pc_Name p, pc_Type p)) (p # ps))" if "pc_Name p \<notin> pc_Name ` set ps"
  proof -
    from that have "map_of (map (\<lambda>p. (pc_Name p, pc_Type p)) ps) (pc_Name p) = None"
      by (force simp: map_of_eq_None_iff)
    then show ?thesis by (simp add: map_add_def fun_eq_iff split: option.split)
  qed
  show ?case
  proof (cases "validate_platform V i p m")
    case None
    then have p: "m (pc_Name p) = None" "valid_platform V p" by (simp_all add: validate_platform_iff)
    have upd: "(\<forall>q \<in> set ps. (m(pc_Name p \<mapsto> pc_Type p)) (pc_Name q) = None)
        \<longleftrightarrow> pc_Name p \<notin> pc_Name ` set ps \<and> (\<forall>q \<in> set ps. m (pc_Name q) = None)"
      by (force simp: image_iff split: if_splits)
    have "validate_platforms V i (p # ps) m = Inr m' \<longleftrightarrow>
        validate_platforms V (Suc i) ps (m(pc_Name p \<mapsto> pc_Type p)) = Inr m'"
      using None by simp
    also note Cons.IH [of "Suc i" "m(pc_Name p \<mapsto> pc_Type p)", unfolded upd]
    finally have iff: "validate_platforms V i (p # ps) m = Inr m' \<longleftrightarrow>
        (\<forall>q \<in> set ps. valid_platform V q) \<and> distinct (map pc_Name ps)
        \<and> (pc_Name p \<notin> pc_Name ` set ps \<and> (\<forall>q \<in> set ps. m (pc_Name q) = None))
        \<and> m' = m(pc_Name p \<mapsto> pc_Type p) ++ map_of (map (\<lambda>p. (pc_Name p, pc_Type p)) ps)" .
    show ?thesis
    proof (cases "pc_Name p \<in> pc_Name ` set ps")
      case True
      with iff show ?thesis by simp
    next
      case False
      define T where "T = map_of (map (\<lambda>p. (pc_Name p, pc_Type p)) (p # ps))"
      show ?thesis unfolding iff eq [OF False] T_def [symmetric] using p False by simp
    qed
  next
    case (Some e)
    then show ?thesis using validate_platform_iff [of V i p m] by auto
  qed
qed

lemma validate_executor_iff:
  assumes "distinct (map pc_Name ps)"
  shows "ec_Name e \<noteq> [] \<and> validate_executor V (map_of (map (\<lambda>p. (pc_Name p, pc_Type p)) ps)) e = None
     \<longleftrightarrow> valid_executor V ps e"
proof -
  have lookup: "map_of (map (\<lambda>p. (pc_Name p, pc_Type p)) ps) n = Some t
      \<longleftrightarrow> (\<exists>p \<in> set ps. pc_Name p = n \<and> pc_Type p = t)" for n t
    using assms by (subst map_of_eq_Some_iff) (auto simp: comp_def)
  consider (pipeline) "ec_Type e = ExecutorGitLabPipeline" | (kube) "ec_Type e = ExecutorKubernetes"
    | (docker) "ec_Type e = ExecutorDocker" | (noop) "ec_Type e = ExecutorNoop"
    | (other) "ec_Type e \<notin> {ExecutorGitLabPipeline, ExecutorKubernetes, ExecutorDocker, ExecutorNoop}"
    by blast
  then show ?thesis
  proof cases
    case pipeline
    have "(\<exists>p \<in> set ps. pc_Name p = ec_Platform e \<and> pc_Type p = PlatformGitLab)
        \<longleftrightarrow> map_of (map (\<lambda>p. (pc_Name p, pc_Type p)) ps) (ec_Platform e) = Some PlatformGitLab"
      by (simp add: lookup)
    with pipeline show ?thesis
      by (auto simp: validate_executor_def valid_executor_def split: option.splits if_splits)
  next
    case kube
    then show ?thesis
      by (simp add: validate_executor_def valid_executor_def validate_quantities_None ball_Un)
  qed (simp_all add: validate_executor_def valid_executor_def)
qed

lemma validate_executors_Inr:
  assumes "distinct (map pc_Name ps)"
  shows "validate_executors V (map_of (map (\<lambda>p. (pc_Name p, pc_Type p)) ps)) i es ns = Inr ns' \<longleftrightarrow>
     (\<forall>e \<in> set es. valid_executor V ps e) \<and> distinct (map ec_Name es)
     \<and> set (map ec_Name es) \<inter> set ns = {} \<and> ns' = rev (map ec_Name es) @ ns"
proof (induction es arbitrary: i ns)
  case Nil
  then show ?case by auto
next
  case (Cons e es)
  show ?case
    using Cons.IH [of "Suc i" "ec_Name e # ns"] validate_executor_iff [OF assms, of e V]
    by (auto split: option.splits if_splits)
qed

lemma validate_rules_Inr:
  "validate_rules V ns i rs b = Inr b' \<longleftrightarrow>
     (\<forall>r \<in> set rs. valid_rule V (set ns) r) \<and> b' = (b \<or> (\<exists>r \<in> set rs. rule_Match r = ''**''))"
  by (induction rs arbitrary: i b) (auto simp: valid_rule_def Let_def split: if_splits)

lemma validate_iff: "validate V c = None \<longleftrightarrow> valid_config V c"
proof -
  let ?m = "map_of (map (\<lambda>p. (pc_Name p, pc_Type p)) (Platforms c))"
  have P: "validate_platforms V 0 (Platforms c) Map.empty = Inr m \<longleftrightarrow>
      (\<forall>p \<in> set (Platforms c). valid_platform V p) \<and> distinct (map pc_Name (Platforms c)) \<and> m = ?m" for m
    by (simp add: validate_platforms_Inr)
  have E: "validate_executors V ?m 0 (Executors c) [] = Inr ns \<longleftrightarrow>
      (\<forall>e \<in> set (Executors c). valid_executor V (Platforms c) e) \<and> distinct (map ec_Name (Executors c))
      \<and> ns = rev (map ec_Name (Executors c))" if "distinct (map pc_Name (Platforms c))" for ns
    by (simp add: validate_executors_Inr [OF that])
  show ?thesis
  proof (cases "valid_store (srv_Store (Server c)) \<and> Platforms c \<noteq> []
      \<and> (\<forall>p \<in> set (Platforms c). valid_platform V p) \<and> distinct (map pc_Name (Platforms c))")
    case True
    then have "validate_store (srv_Store (Server c)) = None"
      and "validate_platforms V 0 (Platforms c) Map.empty = Inr ?m"
      by (simp_all add: validate_store_iff P)
    then have step: "validate V c = (case validate_executors V ?m 0 (Executors c) [] of
          Inl e \<Rightarrow> Some e
        | Inr ns \<Rightarrow> if Rules c = [] then Some NoRules
            else case validate_rules V ns 0 (Rules c) False of Inl e \<Rightarrow> Some e
                 | Inr b \<Rightarrow> if \<not> b then Some CatchAllRequired else None)"
      using True by (simp add: validate_def err_then_def)
    show ?thesis
    proof (cases "validate_executors V ?m 0 (Executors c) []")
      case (Inl err)
      with E True have "\<not> ((\<forall>e \<in> set (Executors c). valid_executor V (Platforms c) e)
          \<and> distinct (map ec_Name (Executors c)))"
        by (metis sum.distinct(1))
      with Inl step show ?thesis by (auto simp: valid_config_def)
    next
      case (Inr ns)
      have ns: "\<forall>e \<in> set (Executors c). valid_executor V (Platforms c) e"
        "distinct (map ec_Name (Executors c))" "set ns = ec_Name ` set (Executors c)"
        using E [of ns] True Inr by simp_all
      have "validate V c = None \<longleftrightarrow> validate_rules V ns 0 (Rules c) False = Inr True"
        unfolding step Inr by (cases "Rules c = []") (simp_all split: sum.split)
      with True ns show ?thesis by (simp add: validate_rules_Inr valid_config_def)
    qed
  next
    case False
    then have "validate V c \<noteq> None"
      by (auto simp: validate_def validate_store_iff P split: option.splits sum.splits)
    with False show ?thesis by (auto simp: valid_config_def)
  qed
qed

section \<open>Defaults\<close>

text \<open>\<open>applyDefaults\<close> fills every field it is about; a second application changes nothing.\<close>

lemma dflt_idem [simp]: "dflt z d (dflt z d x) = dflt z d x"
  by (simp add: dflt_def)

lemma default_server_idem: "default_server (default_server s) = default_server s"
  by (simp add: default_server_def default_log_def default_store_def default_redis_def)

lemma default_platform_idem: "default_platform (default_platform p) = default_platform p"
  by (simp add: default_platform_def)

lemma default_executor_idem: "default_executor (default_executor e) = default_executor e"
  by (simp add: default_executor_def Let_def)

lemma default_executor_names: "ec_Name (default_executor e) = ec_Name e"
  by (simp add: default_executor_def Let_def)

lemma applyDefaults_idem: "applyDefaults (applyDefaults c) = applyDefaults c"
  by (simp add: applyDefaults_def default_server_idem default_platform_idem default_executor_idem comp_def)

lemma default_executor_filled:
  "\<not> (ec_Type (default_executor e) = ExecutorGitLabPipeline
        \<and> (ec_Ref (default_executor e) = [] \<or> ec_PollInterval (default_executor e) = 0))
   \<and> \<not> (ec_Type (default_executor e) = ExecutorKubernetes \<and> ec_JobTTL (default_executor e) = 0)"
  by (simp add: default_executor_def dflt_def Let_def)

section \<open>Properties\<close>

text \<open>
  C20. Validation accepts exactly the configurations that satisfy the declarative predicate
  \<open>valid_config\<close>: supported store, platform and executor types, unique non-empty names,
  the required secrets, known events, parsable time zones, crontabs, globs and quantities,
  rules that name configured executors, and a catch-all rule.
\<close>

theorem validation_exact: "validate V c = None \<longleftrightarrow> valid_config V c"
  by (rule validate_iff)

text \<open>
  Applying the defaults leaves no zero value in the fields they are about, and applying
  them twice is the same as applying them once.
\<close>

theorem defaults_fill_and_settle:
  "applyDefaults (applyDefaults c) = applyDefaults c
   \<and> srv_Debounce (Server (applyDefaults c)) \<noteq> 0 \<and> srv_MaxConcurrentRuns (Server (applyDefaults c)) \<noteq> 0
   \<and> srv_RunTimeout (Server (applyDefaults c)) \<noteq> 0 \<and> srv_HistorySize (Server (applyDefaults c)) \<noteq> 0
   \<and> redis_TTL (store_Redis (srv_Store (Server (applyDefaults c)))) \<noteq> 0
   \<and> list_all (\<lambda>p. pc_DashboardIssueTitle p \<noteq> [] \<and> mr_SourceBranchPrefixes (pc_MRFilter p) \<noteq> None)
       (Platforms (applyDefaults c))
   \<and> list_all (\<lambda>e. \<not> (ec_Type e = ExecutorGitLabPipeline \<and> (ec_Ref e = [] \<or> ec_PollInterval e = 0))
                    \<and> \<not> (ec_Type e = ExecutorKubernetes \<and> ec_JobTTL e = 0))
       (Executors (applyDefaults c))"
proof (intro conjI)
  show "applyDefaults (applyDefaults c) = applyDefaults c" by (rule applyDefaults_idem)
next
  show "list_all (\<lambda>e. \<not> (ec_Type e = ExecutorGitLabPipeline \<and> (ec_Ref e = [] \<or> ec_PollInterval e = 0))
                    \<and> \<not> (ec_Type e = ExecutorKubernetes \<and> ec_JobTTL e = 0))
       (Executors (applyDefaults c))"
    using default_executor_filled by (simp add: applyDefaults_def list.pred_map comp_def list_all_iff)
qed (simp_all add: applyDefaults_def default_server_def default_store_def default_redis_def
    default_platform_def dflt_def list_all_iff)

end
