(* ===== verification/Platform.thy ===== *)
theory Platform
  imports Config
begin

text \<open>
  The platform-neutral types and the allow list (\<open>src/internal/platform/platform.go\<close>):
  repositories and their dispatch keys, reasons, events, and the path-prefix match that
  decides which repositories a platform may trigger.
\<close>

section \<open>Strings\<close>

definition is_ascii :: "char \<Rightarrow> bool" where
  "is_ascii c \<longleftrightarrow> (of_char c :: nat) < 128"

definition ascii_lower :: "char \<Rightarrow> char" where
  "ascii_lower c = (if 65 \<le> (of_char c :: nat) \<and> (of_char c :: nat) \<le> 90
     then char_of ((of_char c :: nat) + 32) else c)"

text \<open>
  \<open>strings.ToLower\<close>: bytewise on an ASCII string; otherwise the mapping of the Unicode
  tables, which is the argument \<open>uni\<close>.
\<close>

definition ToLower :: "(string \<Rightarrow> string) \<Rightarrow> string \<Rightarrow> string" where
  "ToLower uni s = (if list_all is_ascii s then map ascii_lower s else uni s)"

section \<open>Repositories and events\<close>

record Repo =
  repo_Platform :: string
  repo_FullName :: string

definition Key :: "Repo \<Rightarrow> string" where
  "Key r = repo_Platform r @ '':'' @ repo_FullName r"

type_synonym reason = string

abbreviation ReasonMergeRequest :: reason where "ReasonMergeRequest \<equiv> ''merge_request''"
abbreviation ReasonIssue :: reason where "ReasonIssue \<equiv> ''issue''"
abbreviation ReasonPush :: reason where "ReasonPush \<equiv> ''push''"
abbreviation ReasonCron :: reason where "ReasonCron \<equiv> ''cron''"
abbreviation ReasonRerun :: reason where "ReasonRerun \<equiv> ''rerun''"
abbreviation ReasonManual :: reason where "ReasonManual \<equiv> ''manual''"

record Event =
  ev_Repo :: Repo
  ev_Reason :: reason

section \<open>The allow list\<close>

fun allowed_by :: "(string \<Rightarrow> string) \<Rightarrow> string list \<Rightarrow> string \<Rightarrow> bool" where
  "allowed_by uni [] name = False"
| "allowed_by uni (g # groups) name =
     (let g = ToLower uni g
      in if name = g \<or> hasPrefix name (g @ ''/'') then True else allowed_by uni groups name)"

definition RepoAllowed :: "(string \<Rightarrow> string) \<Rightarrow> string list \<Rightarrow> string \<Rightarrow> bool" where
  "RepoAllowed uni groups fullName =
     (if groups = [] then True else allowed_by uni groups (ToLower uni fullName))"

section \<open>Properties of keys and of the allow list\<close>

lemma hasPrefix_iff: "hasPrefix s p \<longleftrightarrow> (\<exists>r. s = p @ r)"
  unfolding hasPrefix_def by (metis append_eq_conv_conj append_take_drop_id)

lemma allowed_by_iff:
  "allowed_by uni groups name \<longleftrightarrow>
     (\<exists>g \<in> set groups. name = ToLower uni g \<or> hasPrefix name (ToLower uni g @ ''/''))"
  by (induction groups) (auto simp: Let_def)

lemma append_colon_eq:
  "CHR '':'' \<notin> set a \<Longrightarrow> CHR '':'' \<notin> set b \<Longrightarrow> a @ '':'' @ x = b @ '':'' @ y \<Longrightarrow> a = b \<and> x = y"
proof (induction a arbitrary: b)
  case Nil
  then show ?case by (cases b) auto
next
  case (Cons c a)
  then show ?case by (cases b) auto
qed

lemma Key_inj:
  "CHR '':'' \<notin> set (repo_Platform r) \<Longrightarrow> CHR '':'' \<notin> set (repo_Platform r') \<Longrightarrow>
   Key r = Key r' \<longleftrightarrow> r = r'"
  using append_colon_eq [of "repo_Platform r" "repo_Platform r'" "repo_FullName r" "repo_FullName r'"]
  by (metis (full_types) Key_def Repo.equality old.unit.exhaust)

text \<open>
  C29. A repository passes the allow list exactly when the list is empty or, up to case, the
  repository's full name is one of the groups or lies below one of them in the path: a name
  that merely starts with the same letters (\<open>group-x/p\<close> for \<open>group\<close>) is rejected.
\<close>

theorem RepoAllowed_iff:
  "RepoAllowed uni groups fullName \<longleftrightarrow> groups = [] \<or>
     (\<exists>g \<in> set groups. ToLower uni fullName = ToLower uni g
        \<or> (\<exists>rest. ToLower uni fullName = ToLower uni g @ ''/'' @ rest))"
  by (auto simp: RepoAllowed_def allowed_by_iff hasPrefix_iff)

end
