(* ===== verification/Executor.thy ===== *)
theory Executor
  imports Platform
begin

text \<open>
  The executor interface (\<open>src/internal/executor/executor.go\<close>) and the Go error values
  that flow through it. What an executor does is the environment of the dispatcher: a run
  returns some error or none at some time.
\<close>

section \<open>Errors\<close>

text \<open>
  The errors of package \<open>context\<close>, an error made by \<open>fmt.Errorf\<close> or a library without a
  wrapped cause, and an error that wraps another one after a prefix (\<open>%w\<close>).
\<close>

datatype error = DeadlineExceeded | Canceled | Errorf string | Wrapf string error

fun err_Error :: "error \<Rightarrow> string" where
  "err_Error DeadlineExceeded = ''context deadline exceeded''"
| "err_Error Canceled = ''context canceled''"
| "err_Error (Errorf s) = s"
| "err_Error (Wrapf s e) = s @ err_Error e"

text \<open>\<open>errors.Is(err, target)\<close> walks the chain of wrapped errors.\<close>

fun errors_Is :: "error \<Rightarrow> error \<Rightarrow> bool" where
  "errors_Is (Wrapf s e) target = (Wrapf s e = target \<or> errors_Is e target)"
| "errors_Is e target = (e = target)"

section \<open>The interface\<close>

record RunSpec =
  spec_Repo :: Repo
  spec_Reason :: reason

text \<open>An executor value, identified by its configured name.\<close>

record executor =
  ex_Name :: string

end
