(* ===== verification/Router.thy ===== *)
theory Router
  imports Executor
begin

text \<open>
  The router (\<open>src/internal/dispatch/router.go\<close>): ordered glob rules, first match wins. The
  glob matcher of the doublestar package is the argument \<open>match\<close>: \<^const>\<open>None\<close> is its
  bad-pattern error.
\<close>

section \<open>Definitions\<close>

record Route =
  route_Executor :: "executor option"
  route_Disabled :: bool

record compiledRule =
  pattern :: string
  disabled :: bool
  exec :: "executor option"

record Router =
  rules :: "compiledRule list"

datatype router_error = RuleUnknownExecutor nat string

fun compile_rules :: "nat \<Rightarrow> Rule list \<Rightarrow> (string \<rightharpoonup> executor) \<Rightarrow> Router \<Rightarrow> router_error + Router" where
  "compile_rules i [] executors r = Inr r"
| "compile_rules i (rule # rs) executors r =
     (let cr = \<lparr>pattern = rule_Match rule, disabled = rule_Disabled rule, exec = None\<rparr> in
      if \<not> rule_Disabled rule then
        (case executors (rule_Executor rule) of
           None \<Rightarrow> Inl (RuleUnknownExecutor i (rule_Executor rule))
         | Some ex \<Rightarrow> compile_rules (Suc i) rs executors (r\<lparr>rules := rules r @ [cr\<lparr>exec := Some ex\<rparr>]\<rparr>))
      else compile_rules (Suc i) rs executors (r\<lparr>rules := rules r @ [cr]\<rparr>))"

definition NewRouter :: "Rule list \<Rightarrow> (string \<rightharpoonup> executor) \<Rightarrow> router_error + Router" where
  "NewRouter rs executors = compile_rules 0 rs executors \<lparr>rules = []\<rparr>"

fun route_rules :: "(string \<Rightarrow> string \<Rightarrow> bool option) \<Rightarrow> compiledRule list \<Rightarrow> string \<Rightarrow> Route" where
  "route_rules match [] name = \<lparr>route_Executor = None, route_Disabled = True\<rparr>"
| "route_rules match (rule # rs) name =
     (if match (pattern rule) name \<noteq> Some True then route_rules match rs name
      else \<lparr>route_Executor = exec rule, route_Disabled = disabled rule\<rparr>)"

definition Route_of :: "(string \<Rightarrow> string \<Rightarrow> bool option) \<Rightarrow> Router \<Rightarrow> string \<Rightarrow> Route" where
  "Route_of match r repoFullName = route_rules match (rules r) repoFullName"

section \<open>Well-formed routers\<close>

text \<open>The comment on \<open>Route.Executor\<close>: nil iff disabled.\<close>

definition router_wf :: "Router \<Rightarrow> bool" where
  "router_wf r \<longleftrightarrow> (\<forall>cr \<in> set (rules r). disabled cr \<longleftrightarrow> exec cr = None)"

lemma compile_rules_Inr:
  "compile_rules i rs executors r = Inr r' \<longleftrightarrow>
     (\<forall>rule \<in> set rs. rule_Disabled rule \<or> executors (rule_Executor rule) \<noteq> None) \<and>
     r' = r\<lparr>rules := rules r @ map (\<lambda>rule. \<lparr>pattern = rule_Match rule, disabled = rule_Disabled rule,
        exec = (if rule_Disabled rule then None else executors (rule_Executor rule))\<rparr>) rs\<rparr>"
  by (induction rs arbitrary: i r) (auto simp: Let_def split: option.splits)

lemma NewRouter_Inr:
  "NewRouter rs executors = Inr r \<longleftrightarrow>
     (\<forall>rule \<in> set rs. rule_Disabled rule \<or> executors (rule_Executor rule) \<noteq> None) \<and>
     r = \<lparr>rules = map (\<lambda>rule. \<lparr>pattern = rule_Match rule, disabled = rule_Disabled rule,
        exec = (if rule_Disabled rule then None else executors (rule_Executor rule))\<rparr>) rs\<rparr>"
  by (simp add: NewRouter_def compile_rules_Inr)

lemma NewRouter_wf: "NewRouter rs executors = Inr r \<Longrightarrow> router_wf r"
  by (auto simp: NewRouter_Inr router_wf_def)

lemma route_rules_split:
  "route_rules match (xs @ ys) name =
     (if \<exists>r \<in> set xs. match (pattern r) name = Some True then route_rules match xs name
      else route_rules match ys name)"
  by (induction xs) auto

lemma route_rules_wf:
  "(\<forall>cr \<in> set crs. disabled cr \<longleftrightarrow> exec cr = None) \<Longrightarrow>
   route_Disabled (route_rules match crs name) \<longleftrightarrow> route_Executor (route_rules match crs name) = None"
  by (induction crs) auto

lemma Route_wf:
  "router_wf r \<Longrightarrow> route_Disabled (Route_of match r name) \<longleftrightarrow> route_Executor (Route_of match r name) = None"
  by (simp add: router_wf_def Route_of_def route_rules_wf)

section \<open>Properties\<close>

text \<open>
  C23. The router that \<open>NewRouter\<close> builds implements the configured rules: the outcome of a
  repository is decided by the first rule whose glob matches its name (a glob the matcher
  rejects never matches): disabled if that rule disables, otherwise the executor the rule
  names; without a matching rule the repository is disabled.
\<close>

theorem route_first_match_wins:
  assumes "NewRouter rs executors = Inr r"
  shows "Route_of match r name =
    (case find (\<lambda>rule. match (rule_Match rule) name = Some True) rs of
       None \<Rightarrow> \<lparr>route_Executor = None, route_Disabled = True\<rparr>
     | Some rule \<Rightarrow> \<lparr>route_Executor = (if rule_Disabled rule then None else executors (rule_Executor rule)),
                    route_Disabled = rule_Disabled rule\<rparr>)"
proof -
  have "route_rules match (map (\<lambda>rule. \<lparr>pattern = rule_Match rule, disabled = rule_Disabled rule,
        exec = (if rule_Disabled rule then None else executors (rule_Executor rule))\<rparr>) rs) name =
    (case find (\<lambda>rule. match (rule_Match rule) name = Some True) rs of
       None \<Rightarrow> \<lparr>route_Executor = None, route_Disabled = True\<rparr>
     | Some rule \<Rightarrow> \<lparr>route_Executor = (if rule_Disabled rule then None else executors (rule_Executor rule)),
                    route_Disabled = rule_Disabled rule\<rparr>)"
    by (induction rs) auto
  with assms show ?thesis by (simp add: Route_of_def NewRouter_Inr)
qed

text \<open>The rules of the router test: a disabled subtree, a subtree with its own executor, a catch-all.\<close>

definition sample_match :: "string \<Rightarrow> string \<Rightarrow> bool option" where
  "sample_match p name = Some (p = ''**'' \<or> hasPrefix name (butlast (butlast p)))"

definition sample_rules :: "Rule list" where
  "sample_rules = [\<lparr>rule_Match = ''top/legacy/**'', rule_Executor = '''', rule_Disabled = True\<rparr>,
     \<lparr>rule_Match = ''top/platform/**'', rule_Executor = ''k8s'', rule_Disabled = False\<rparr>,
     \<lparr>rule_Match = ''**'', rule_Executor = ''ci'', rule_Disabled = False\<rparr>]"

definition sample_executors :: "string \<rightharpoonup> executor" where
  "sample_executors = [''ci'' \<mapsto> \<lparr>ex_Name = ''ci''\<rparr>, ''k8s'' \<mapsto> \<lparr>ex_Name = ''k8s''\<rparr>]"

theorem route_first_match_wins_witness:
  "\<exists>r. NewRouter sample_rules sample_executors = Inr r
     \<and> Route_of sample_match r ''top/platform/api''
         = \<lparr>route_Executor = Some \<lparr>ex_Name = ''k8s''\<rparr>, route_Disabled = False\<rparr>
     \<and> route_Disabled (Route_of sample_match r ''top/legacy/old'')"
proof -
  obtain r where r: "NewRouter sample_rules sample_executors = Inr r"
    by (simp add: NewRouter_Inr sample_rules_def sample_executors_def)
  show ?thesis
    using route_first_match_wins [OF r, of sample_match] r
    by (simp add: sample_rules_def sample_match_def sample_executors_def hasPrefix_def)
qed

end
