(* ===== verification/Metrics.thy ===== *)
theory Metrics
  imports Prelude
begin

text \<open>
  The Prometheus instrumentation (\<open>src/internal/metrics/metrics.go\<close>): a counter vector is
  the number of its increments per label values, the duration histogram the list of its
  observations per executor, newest first.
\<close>

record Metrics =
  webhookEvents :: "string \<times> string \<Rightarrow> nat"
  runsStarted :: "string \<Rightarrow> nat"
  runsFinished :: "string \<times> string \<Rightarrow> nat"
  runDuration :: "string \<Rightarrow> duration list"

definition metrics_New :: Metrics where
  "metrics_New = \<lparr>webhookEvents = (\<lambda>_. 0), runsStarted = (\<lambda>_. 0), runsFinished = (\<lambda>_. 0),
     runDuration = (\<lambda>_. [])\<rparr>"

definition WebhookEvent :: "string \<Rightarrow> string \<Rightarrow> Metrics \<Rightarrow> Metrics" where
  "WebhookEvent platformName outcome m = m\<lparr>webhookEvents :=
     (webhookEvents m)((platformName, outcome) := Suc (webhookEvents m (platformName, outcome)))\<rparr>"

definition RunStarted :: "string \<Rightarrow> Metrics \<Rightarrow> Metrics" where
  "RunStarted executorName m = m\<lparr>runsStarted :=
     (runsStarted m)(executorName := Suc (runsStarted m executorName))\<rparr>"

definition RunFinished :: "string \<Rightarrow> string \<Rightarrow> duration \<Rightarrow> Metrics \<Rightarrow> Metrics" where
  "RunFinished executorName result d m = m\<lparr>
     runsFinished := (runsFinished m)((executorName, result) := Suc (runsFinished m (executorName, result))),
     runDuration := (runDuration m)(executorName := d # runDuration m executorName)\<rparr>"

end
