(* ===== verification/History.thy ===== *)
theory History
  imports Prelude
begin

text \<open>
  The bounded record of finished runs (\<open>src/internal/history/history.go\<close>): a ring
  buffer that overwrites its oldest entry when full. The interface of the recorder is
  the locale \<open>run_log\<close>; its interpretation on the ring buffer shows that the buffer
  always holds the newest entries, newest first.
\<close>

section \<open>The ring buffer\<close>

record entry =
  entry_repo :: string
  entry_reason :: string
  entry_executor :: string
  entry_result :: string
  entry_error :: string
  entry_start :: go_time
  entry_duration :: string

text \<open>The zero value of the struct, with which \<open>make([]Entry, size)\<close> fills the slice.\<close>

definition zero_entry :: entry where
  "zero_entry = \<lparr>entry_repo = [], entry_reason = [], entry_executor = [], entry_result = [],
     entry_error = [], entry_start = 0, entry_duration = []\<rparr>"

record history =
  entries :: "entry list"
  idx :: nat
  filled :: bool

definition history_New :: "int \<Rightarrow> history" where
  "history_New n =
     (let n = (if n \<le> 0 then 100 else n)
      in \<lparr>entries = replicate (nat n) zero_entry, idx = 0, filled = False\<rparr>)"

text \<open>An index outside the slice is a Go panic: \<^const>\<open>None\<close>.\<close>

definition Record :: "history \<Rightarrow> entry \<Rightarrow> history option" where
  "Record h e =
     (if idx h < length (entries h) then
        let h1 = h\<lparr>entries := (entries h)[idx h := e], idx := Suc (idx h)\<rparr>
        in Some (if idx h1 = length (entries h1) then h1\<lparr>idx := 0, filled := True\<rparr> else h1)
      else None)"

text \<open>The read index is computed on Go's signed \<open>int\<close>.\<close>

definition Entries :: "history \<Rightarrow> entry list" where
  "Entries h =
     (let n = (if filled h then length (entries h) else idx h)
      in map (\<lambda>i. entries h ! nat ((int (idx h) - int i + int (length (entries h)))
                                     mod int (length (entries h)))) [1..<Suc n])"

section \<open>Invariant\<close>

definition history_inv :: "history \<Rightarrow> bool" where
  "history_inv h \<longleftrightarrow> idx h < length (entries h)"

lemma history_inv_New [inv_intros]: "history_inv (history_New n)"
  by (auto simp: history_inv_def history_New_def Let_def)

lemma Record_total: "history_inv h \<Longrightarrow> \<exists>h'. Record h e = Some h'"
  by (simp add: history_inv_def Record_def Let_def)

lemma history_inv_Record [inv_intros]:
  "history_inv h \<Longrightarrow> Record h e = Some h' \<Longrightarrow> history_inv h'"
  by (auto simp: history_inv_def Record_def Let_def split: if_splits)

section \<open>The buffer holds the newest entries\<close>

lemma Record_length: "Record h e = Some h' \<Longrightarrow> length (entries h') = length (entries h)"
  by (auto simp: Record_def Let_def split: if_splits)

lemma Record_idx_mod:
  assumes "Record h e = Some h'" and "history_inv h"
  shows "int (idx h') mod int (length (entries h)) = (int (idx h) + 1) mod int (length (entries h))"
proof (cases "Suc (idx h) = length (entries h)")
  case True
  then have "int (idx h) + 1 = int (length (entries h))" by linarith
  with assms True show ?thesis by (auto simp: Record_def Let_def split: if_splits)
next
  case False
  with assms show ?thesis by (auto simp: Record_def Let_def algebra_simps split: if_splits)
qed

lemma Record_entries: "Record h e = Some h' \<Longrightarrow> entries h' = (entries h)[idx h := e]"
  by (auto simp: Record_def Let_def split: if_splits)

lemma length_Entries:
  "length (Entries h) = (if filled h then length (entries h) else idx h)"
  by (simp add: Entries_def Let_def del: upt_Suc)

lemma nth_Entries:
  assumes "j < length (Entries h)"
  shows "Entries h ! j =
    entries h ! nat ((int (idx h) - int (Suc j) + int (length (entries h))) mod int (length (entries h)))"
  using assms by (simp add: Entries_def Let_def del: upt_Suc)

lemma length_Entries_Record:
  assumes "history_inv h" and "Record h e = Some h'"
  shows "length (Entries h') = min (length (entries h)) (Suc (length (Entries h)))"
  using assms by (auto simp: length_Entries history_inv_def Record_def Let_def split: if_splits)

lemma mod_shift_ne:
  assumes "ix < (len::nat)" and "0 < j" and "j < len"
  shows "nat ((int ix - int j + int len) mod int len) \<noteq> ix"
proof
  assume eq: "nat ((int ix - int j + int len) mod int len) = ix"
  have "0 \<le> (int ix - int j + int len) mod int len" using assms by simp
  with eq have "(int ix - int j + int len) mod int len = int ix" by linarith
  also have "\<dots> = int ix mod int len" using assms by simp
  finally have "int len dvd (int ix - int j + int len) - int ix"
    by (simp only: mod_eq_dvd_iff)
  then have "int len dvd int len - int j" by (simp add: algebra_simps)
  with assms show False using zdvd_not_zless [of "int len - int j" "int len"] by simp
qed

text \<open>One \<open>Record\<close> puts its entry in front and drops the oldest one beyond the capacity.\<close>

lemma Entries_Record:
  assumes inv: "history_inv h" and rec: "Record h e = Some h'"
  shows "Entries h' = take (length (entries h)) (e # Entries h)"
proof (rule nth_equalityI)
  show "length (Entries h') = length (take (length (entries h)) (e # Entries h))"
    using length_Entries_Record [OF inv rec] by simp
next
  fix j assume j: "j < length (Entries h')"
  let ?L = "length (entries h)"
  from inv have L: "idx h < ?L" by (simp add: history_inv_def)
  have jL: "j < ?L" and jn: "j < Suc (length (Entries h))"
    using j length_Entries_Record [OF inv rec] by auto
  have "(int (idx h') - int (Suc j) + int ?L) mod int ?L
        = (int (idx h') mod int ?L - int (Suc j) + int ?L) mod int ?L"
    by (simp add: mod_simps)
  also have "\<dots> = (int (idx h) - int j + int ?L) mod int ?L"
    unfolding Record_idx_mod [OF rec inv] by (simp add: mod_simps)
  finally have pos: "(int (idx h') - int (Suc j) + int ?L) mod int ?L
        = (int (idx h) - int j + int ?L) mod int ?L" .
  have nth: "Entries h' ! j
        = (entries h)[idx h := e] ! nat ((int (idx h) - int j + int ?L) mod int ?L)"
    using nth_Entries [OF j] by (simp only: Record_entries [OF rec] length_list_update pos)
  show "Entries h' ! j = take ?L (e # Entries h) ! j"
  proof (cases j)
    case 0
    with nth L jL show ?thesis by (simp add: nth_take)
  next
    case (Suc i)
    have "nat ((int (idx h) - int j + int ?L) mod int ?L) \<noteq> idx h"
      using mod_shift_ne [OF L _ jL] Suc by simp
    then have "Entries h' ! j = entries h ! nat ((int (idx h) - int j + int ?L) mod int ?L)"
      using nth by simp
    also have "\<dots> = Entries h ! i"
      using nth_Entries [of i h] jn Suc by simp
    finally show ?thesis using jL Suc by simp
  qed
qed

section \<open>The recorder interface\<close>

text \<open>
  What the dispatcher and the \<open>/api/v1/runs\<close> endpoint rely on: recording never fails,
  and the listing after a record is the entry in front of the old listing, cut to the
  capacity. The client's lemma is about a whole sequence of records.
\<close>

locale run_log =
  fixes new :: "'c \<Rightarrow> 'h"
    and rec :: "'h \<Rightarrow> 'e \<Rightarrow> 'h option"
    and listing :: "'h \<Rightarrow> 'e list"
    and cap :: "'h \<Rightarrow> nat"
    and invar :: "'h \<Rightarrow> bool"
  assumes invar_new: "invar (new c)"
    and listing_new: "listing (new c) = []"
    and rec_defined: "invar h \<Longrightarrow> \<exists>h'. rec h e = Some h'"
    and invar_rec: "invar h \<Longrightarrow> rec h e = Some h' \<Longrightarrow> invar h'"
    and cap_rec: "invar h \<Longrightarrow> rec h e = Some h' \<Longrightarrow> cap h' = cap h"
    and listing_rec: "invar h \<Longrightarrow> rec h e = Some h' \<Longrightarrow> listing h' = take (cap h) (e # listing h)"
begin

text \<open>Recording a list of entries in turn; a failing record would make the rest fail.\<close>

abbreviation rec_all :: "'h \<Rightarrow> 'e list \<Rightarrow> 'h option" where
  "rec_all h es \<equiv> foldl (\<lambda>m e. Option.bind m (\<lambda>h. rec h e)) (Some h) es"

lemma rec_all_listing:
  assumes "invar h" and "length (listing h) \<le> cap h"
  shows "\<exists>h'. rec_all h es = Some h' \<and> invar h' \<and> cap h' = cap h
           \<and> listing h' = take (cap h) (rev es @ listing h)"
  using assms
proof (induction es arbitrary: h)
  case Nil
  then show ?case by simp
next
  case (Cons e es)
  obtain h1 where h1: "rec h e = Some h1" using rec_defined [OF Cons.prems(1)] by blast
  note laws = invar_rec [OF Cons.prems(1) h1] cap_rec [OF Cons.prems(1) h1]
    listing_rec [OF Cons.prems(1) h1]
  have "length (listing h1) \<le> cap h1" using laws by simp
  from Cons.IH [OF laws(1) this] obtain h' where h': "rec_all h1 es = Some h'" "invar h'"
    "cap h' = cap h1" "listing h' = take (cap h1) (rev es @ listing h1)" by blast
  have "take (cap h) (rev es @ take (cap h) (e # listing h))
          = take (cap h) (rev es @ e # listing h)"
    by (simp only: take_append take_take) (simp add: min_def)
  with h' h1 laws show ?case by simp
qed

end

interpretation hist: run_log history_New Record Entries "\<lambda>h. length (entries h)" history_inv
proof unfold_locales
  fix n h h' e
  show "history_inv (history_New n)" by (rule history_inv_New)
  show "Entries (history_New n) = []" by (simp add: Entries_def history_New_def Let_def)
  assume inv: "history_inv h"
  then show "\<exists>h'. Record h e = Some h'" by (rule Record_total)
  assume rec: "Record h e = Some h'"
  show "history_inv h'" using inv rec by (rule history_inv_Record)
  show "length (entries h') = length (entries h)" using rec by (rule Record_length)
  show "Entries h' = take (length (entries h)) (e # Entries h)" using inv rec by (rule Entries_Record)
qed

text \<open>
  C28. A history of size \<open>n\<close> (100 when \<open>n\<close> is not positive) accepts any sequence of
  records without a panic, and then lists exactly the newest of them, newest first.
\<close>

theorem history_holds_newest:
  "\<exists>h. foldl (\<lambda>m e. Option.bind m (\<lambda>h. Record h e)) (Some (history_New n)) es = Some h
     \<and> Entries h = take (if n \<le> 0 then 100 else nat n) (rev es)"
proof -
  have "length (entries (history_New n)) = (if n \<le> 0 then 100 else nat n)"
    by (simp add: history_New_def Let_def)
  with hist.rec_all_listing [OF hist.invar_new, of n es] show ?thesis
    by (auto simp: hist.listing_new)
qed

end
