(* ===== verification/GoTime.thy ===== *)
theory GoTime
  imports Prelude
begin

text \<open>
  What the program uses of Go's package \<open>time\<close>: the RFC 3339 rendering in which the
  Redis store keeps timestamps and its parser, with the round trip between the two.
  Instants are nanoseconds since 1970-01-01T00:00:00Z.
\<close>

section \<open>Calendar dates\<close>

definition leap_year :: "nat \<Rightarrow> bool" where
  "leap_year y \<longleftrightarrow> y mod 4 = 0 \<and> (y mod 100 \<noteq> 0 \<or> y mod 400 = 0)"

definition year_days :: "nat \<Rightarrow> nat" where
  "year_days y = (if leap_year y then 366 else 365)"

definition month_days :: "nat \<Rightarrow> nat \<Rightarrow> nat" where
  "month_days y m = (if m = 2 then (if leap_year y then 29 else 28)
     else if m \<in> {4, 6, 9, 11} then 30 else 31)"

text \<open>The year that contains day \<open>d\<close>, counted from the start of year \<open>y\<close>, with the day in it.\<close>

function split_year :: "nat \<Rightarrow> nat \<Rightarrow> nat \<times> nat" where
  "split_year y d = (if d < year_days y then (y, d) else split_year (Suc y) (d - year_days y))"
  by pat_completeness auto
termination
  by (relation "measure snd") (auto simp: year_days_def)

function split_month :: "nat \<Rightarrow> nat \<Rightarrow> nat \<Rightarrow> nat \<times> nat" where
  "split_month y m d =
     (if m \<ge> 12 \<or> d < month_days y m then (m, d) else split_month y (Suc m) (d - month_days y m))"
  by pat_completeness auto
termination
  by (relation "measure (\<lambda>(y, m, d). 12 - m)") auto

declare split_year.simps [simp del] split_month.simps [simp del]

definition days_to_year :: "nat \<Rightarrow> nat \<Rightarrow> nat" where
  "days_to_year y0 y = sum_list (map year_days [y0..<y])"

definition days_to_month :: "nat \<Rightarrow> nat \<Rightarrow> nat \<Rightarrow> nat" where
  "days_to_month y m0 m = sum_list (map (month_days y) [m0..<m])"

lemma split_year_correct:
  "split_year y0 d = (y, r) \<Longrightarrow> y0 \<le> y \<and> r < year_days y \<and> days_to_year y0 y + r = d"
proof (induction y0 d arbitrary: y r rule: split_year.induct)
  case (1 y0 d)
  show ?case
  proof (cases "d < year_days y0")
    case True
    with 1(2) show ?thesis by (subst (asm) split_year.simps) (auto simp: days_to_year_def)
  next
    case False
    with 1(2) have "split_year (Suc y0) (d - year_days y0) = (y, r)"
      by (simp add: split_year.simps [of y0])
    from 1(1) [OF False this] False show ?thesis
      by (auto simp: days_to_year_def upt_conv_Cons)
  qed
qed

lemma split_month_correct:
  "split_month y m0 d = (m, r) \<Longrightarrow> m0 \<le> 12 \<Longrightarrow> d < days_to_month y m0 13 \<Longrightarrow>
   m0 \<le> m \<and> m \<le> 12 \<and> r < month_days y m \<and> days_to_month y m0 m + r = d"
proof (induction y m0 d arbitrary: m r rule: split_month.induct)
  case (1 y m0 d)
  have cons: "days_to_month y m0 13 = month_days y m0 + days_to_month y (Suc m0) 13"
    using 1(3) by (simp add: days_to_month_def upt_conv_Cons)
  show ?case
  proof (cases "m0 \<ge> 12 \<or> d < month_days y m0")
    case True
    then have "m = m0" "r = d" using 1(2) by (auto simp: split_month.simps [of y m0])
    moreover have "r < month_days y m"
    proof (cases "m0 \<ge> 12")
      case True
      with 1(3) have "m0 = 12" by simp
      with 1(4) show ?thesis using \<open>m = m0\<close> \<open>r = d\<close> by (simp add: days_to_month_def upt_rec)
    next
      case False
      with True \<open>m = m0\<close> \<open>r = d\<close> show ?thesis by simp
    qed
    ultimately show ?thesis using 1(3) by (simp add: days_to_month_def)
  next
    case False
    with 1(2) have "split_month y (Suc m0) (d - month_days y m0) = (m, r)"
      by (simp add: split_month.simps [of y m0])
    moreover have "d - month_days y m0 < days_to_month y (Suc m0) 13" using False 1(4) cons by linarith
    ultimately have "Suc m0 \<le> m \<and> m \<le> 12 \<and> r < month_days y m
        \<and> days_to_month y (Suc m0) m + r = d - month_days y m0"
      using 1(1) [OF False] False by simp
    then show ?thesis using False by (auto simp: days_to_month_def upt_conv_Cons)
  qed
qed

lemma days_to_month_year: "days_to_month y 1 13 = year_days y"
  by (simp add: days_to_month_def year_days_def month_days_def upt_rec)

section \<open>Decimal digits\<close>

definition digit :: "nat \<Rightarrow> char" where
  "digit n = char_of (48 + n mod 10)"

definition is_digit :: "char \<Rightarrow> bool" where
  "is_digit c \<longleftrightarrow> 48 \<le> (of_char c :: nat) \<and> (of_char c :: nat) \<le> 57"

definition digit_val :: "char \<Rightarrow> nat" where
  "digit_val c = of_char c - 48"

text \<open>The \<open>w\<close> low decimal digits of \<open>n\<close>.\<close>

fun pad :: "nat \<Rightarrow> nat \<Rightarrow> string" where
  "pad 0 n = []"
| "pad (Suc w) n = pad w (n div 10) @ [digit n]"

definition digits_val :: "string \<Rightarrow> nat" where
  "digits_val s = foldl (\<lambda>a c. 10 * a + digit_val c) 0 s"

lemma is_digit_digit [simp]: "is_digit (digit n)"
  by (simp add: is_digit_def digit_def)

lemma digit_val_digit [simp]: "digit_val (digit n) = n mod 10"
  by (simp add: digit_val_def digit_def)

lemma length_pad [simp]: "length (pad w n) = w"
  by (induction w arbitrary: n) auto

lemma pad_digits: "list_all is_digit (pad w n)"
  by (induction w arbitrary: n) auto

lemma digits_val_pad: "digits_val (pad w n) = n mod 10 ^ w"
proof (induction w arbitrary: n)
  case 0
  then show ?case by (simp add: digits_val_def)
next
  case (Suc w)
  have "digits_val (pad (Suc w) n) = 10 * (n div 10 mod 10 ^ w) + n mod 10"
    using Suc.IH [of "n div 10"] by (simp add: digits_val_def)
  also have "\<dots> = n mod 10 ^ Suc w" by (simp add: mod_mult2_eq)
  finally show ?case .
qed

section \<open>RFC 3339 with nanoseconds\<close>

definition strip0 :: "string \<Rightarrow> string" where
  "strip0 s = rev (dropWhile (\<lambda>c. c = CHR ''0'') (rev s))"

definition format_frac :: "nat \<Rightarrow> string" where
  "format_frac ns = (if ns = 0 then [] else CHR ''.'' # strip0 (pad 9 ns))"

definition format_zone :: "int \<Rightarrow> string" where
  "format_zone off = (if off = 0 then ''Z'' else
     (if off < 0 then CHR ''-'' else CHR ''+'') #
     pad 2 (nat \<bar>off\<bar> div 60) @ '':'' @ pad 2 (nat \<bar>off\<bar> mod 60))"

text \<open>The calendar year of instant \<open>t\<close> in a zone \<open>off\<close> minutes east of UTC.\<close>

definition year_of :: "int \<Rightarrow> go_time \<Rightarrow> nat" where
  "year_of off t = fst (split_year 1970 (nat ((t + off * minute) div second div 86400)))"

text \<open>\<open>t.Format(time.RFC3339Nano)\<close> for an instant not before 1970 in the zone \<open>off\<close>.\<close>

definition format_time :: "int \<Rightarrow> go_time \<Rightarrow> string" where
  "format_time off t =
     (let loc = t + off * minute;
          sod = nat (loc div second mod 86400);
          (y, yd) = split_year 1970 (nat (loc div second div 86400));
          (m, md) = split_month y 1 yd
      in pad 4 y @ ''-'' @ pad 2 m @ ''-'' @ pad 2 (Suc md) @ ''T'' @
         pad 2 (sod div 3600) @ '':'' @ pad 2 (sod div 60 mod 60) @ '':'' @ pad 2 (sod mod 60) @
         format_frac (nat (loc mod second)) @ format_zone off)"

definition parse_num :: "nat \<Rightarrow> string \<Rightarrow> (nat \<times> string) option" where
  "parse_num w s = (if w \<le> length s \<and> list_all is_digit (take w s)
     then Some (digits_val (take w s), drop w s) else None)"

fun parse_lit :: "char \<Rightarrow> string \<Rightarrow> string option" where
  "parse_lit c [] = None"
| "parse_lit c (x # s) = (if x = c then Some s else None)"

definition parse_frac :: "string \<Rightarrow> nat \<times> string" where
  "parse_frac s = (case s of
       x # c # r \<Rightarrow> if x = CHR ''.'' \<and> is_digit c
         then (let ds = takeWhile is_digit (c # r)
               in (digits_val (take 9 (ds @ replicate 9 (CHR ''0''))), dropWhile is_digit (c # r)))
         else (0, s)
     | _ \<Rightarrow> (0, s))"

definition parse_zone :: "string \<Rightarrow> int option" where
  "parse_zone s = (case s of
       [] \<Rightarrow> None
     | c # r \<Rightarrow>
         if c = CHR ''Z'' then (if r = [] then Some 0 else None)
         else if c = CHR ''+'' \<or> c = CHR ''-'' then
           Option.bind (parse_num 2 r) (\<lambda>(h, r1).
           Option.bind (parse_lit (CHR '':'') r1) (\<lambda>r2.
           Option.bind (parse_num 2 r2) (\<lambda>(mi, r3).
             if h \<le> 23 \<and> mi \<le> 59 \<and> r3 = []
             then Some ((if c = CHR ''-'' then -1 else 1) * int (h * 60 + mi)) else None)))
         else None)"

text \<open>\<open>time.Parse(time.RFC3339Nano, s)\<close> for years from 1970 on.\<close>

definition parse_time :: "string \<Rightarrow> go_time option" where
  "parse_time s =
     Option.bind (parse_num 4 s) (\<lambda>(y, s1).
     Option.bind (parse_lit (CHR ''-'') s1) (\<lambda>s2.
     Option.bind (parse_num 2 s2) (\<lambda>(m, s3).
     Option.bind (parse_lit (CHR ''-'') s3) (\<lambda>s4.
     Option.bind (parse_num 2 s4) (\<lambda>(d, s5).
     Option.bind (parse_lit (CHR ''T'') s5) (\<lambda>s6.
     Option.bind (parse_num 2 s6) (\<lambda>(h, s7).
     Option.bind (parse_lit (CHR '':'') s7) (\<lambda>s8.
     Option.bind (parse_num 2 s8) (\<lambda>(mi, s9).
     Option.bind (parse_lit (CHR '':'') s9) (\<lambda>s10.
     Option.bind (parse_num 2 s10) (\<lambda>(sec, s11).
       let (ns, s12) = parse_frac s11
       in if 1970 \<le> y \<and> 1 \<le> m \<and> m \<le> 12 \<and> 1 \<le> d \<and> d \<le> month_days y m
             \<and> h \<le> 23 \<and> mi \<le> 59 \<and> sec \<le> 59
          then map_option (\<lambda>off.
                 (int ((days_to_year 1970 y + days_to_month y 1 m + (d - 1)) * 86400
                       + h * 3600 + mi * 60 + sec)) * second + int ns - off * minute)
               (parse_zone s12)
          else None)))))))))))"

section \<open>Round trip\<close>

lemma parse_num_pad [simp]: "parse_num w (pad w n @ s) = Some (n mod 10 ^ w, s)"
  by (simp add: parse_num_def pad_digits digits_val_pad)

lemma strip0_pad:
  obtains k where "s = strip0 s @ replicate k (CHR ''0'')"
proof -
  have "rev s = takeWhile (\<lambda>c. c = CHR ''0'') (rev s) @ dropWhile (\<lambda>c. c = CHR ''0'') (rev s)" by simp
  then have "s = strip0 s @ rev (takeWhile (\<lambda>c. c = CHR ''0'') (rev s))"
    by (metis rev_append rev_rev_ident strip0_def)
  moreover have "takeWhile (\<lambda>c. c = CHR ''0'') (rev s)
      = replicate (length (takeWhile (\<lambda>c. c = CHR ''0'') (rev s))) (CHR ''0'')"
    by (rule replicate_eqI [symmetric, THEN sym]) (auto dest: set_takeWhileD)
  ultimately have "s = strip0 s @ replicate (length (takeWhile (\<lambda>c. c = CHR ''0'') (rev s))) (CHR ''0'')"
    by (metis rev_replicate)
  then show thesis by (rule that)
qed

lemma take_strip0: "length s = n \<Longrightarrow> take n (strip0 s @ replicate n (CHR ''0'')) = s"
proof -
  assume len: "length s = n"
  obtain k where k: "s = strip0 s @ replicate k (CHR ''0'')" by (rule strip0_pad)
  with len have n: "length (strip0 s) + k = n" by (metis length_append length_replicate)
  then have "take n (strip0 s @ replicate n (CHR ''0'')) = strip0 s @ replicate k (CHR ''0'')"
    by (simp add: take_append min_def)
  with k show ?thesis by simp
qed

lemma strip0_nonempty: "0 < n \<Longrightarrow> n < 10 ^ w \<Longrightarrow> strip0 (pad w n) \<noteq> []"
proof
  assume n: "0 < n" "n < 10 ^ w" and e: "strip0 (pad w n) = []"
  obtain k where k: "pad w n = strip0 (pad w n) @ replicate k (CHR ''0'')" by (rule strip0_pad)
  have "digits_val (replicate k (CHR ''0'')) = 0" for k
    by (induction k) (simp_all add: digits_val_def digit_val_def)
  with k e have "digits_val (pad w n) = 0" by simp
  with n show False by (simp add: digits_val_pad)
qed

lemma parse_frac_dot:
  "is_digit c \<Longrightarrow> parse_frac (CHR ''.'' # c # r) =
     (digits_val (take 9 (takeWhile is_digit (c # r) @ replicate 9 (CHR ''0''))),
      dropWhile is_digit (c # r))"
  by (simp only: parse_frac_def list.case Let_def simp_thms if_True)

lemma parse_frac_format:
  assumes "ns < 1000000000" and "s = [] \<or> (\<not> is_digit (hd s) \<and> hd s \<noteq> CHR ''.'')"
  shows "parse_frac (format_frac ns @ s) = (ns, s)"
proof (cases "ns = 0")
  case True
  with assms(2) show ?thesis
    by (auto simp: parse_frac_def format_frac_def split: list.splits)
next
  case False
  let ?f = "strip0 (pad 9 ns)"
  have dig: "list_all is_digit ?f"
    using pad_digits [of 9 ns] by (auto simp: strip0_def list_all_iff dest: set_dropWhileD)
  have ne: "?f \<noteq> []" using False assms(1) by (intro strip0_nonempty) auto
  have tw: "takeWhile is_digit (?f @ s) = ?f" "dropWhile is_digit (?f @ s) = s"
    using dig assms(2) by (cases s; auto simp: list_all_iff takeWhile_append dropWhile_append)+
  have "digits_val (take 9 (?f @ replicate 9 (CHR ''0''))) = ns"
    using take_strip0 [of "pad 9 ns" 9] assms(1) by (simp add: digits_val_pad)
  moreover obtain c r where f: "?f = c # r" using ne by (cases ?f) auto
  moreover have "is_digit c" using dig f by simp
  ultimately have "parse_frac (CHR ''.'' # ?f @ s) = (ns, s)"
    using parse_frac_dot [of c "r @ s"] tw by (simp only: append_Cons)
  with False show ?thesis by (simp add: format_frac_def)
qed

lemma parse_zone_format:
  assumes "\<bar>off\<bar> < 1440"
  shows "parse_zone (format_zone off) = Some off"
proof (cases "off = 0")
  case True
  then show ?thesis by (simp add: parse_zone_def format_zone_def)
next
  case False
  have p: "parse_num 2 (pad 2 n @ s) = Some (n mod 100, s)" for n s
    using parse_num_pad [of 2 n s] by simp
  have q: "parse_num 2 (pad 2 n) = Some (n mod 100, [])" for n using p [of n "[]"] by simp
  have "nat \<bar>off\<bar> div 60 < 24" "nat \<bar>off\<bar> mod 60 < 60" using assms by auto
  moreover have "int (nat \<bar>off\<bar> div 60 * 60 + nat \<bar>off\<bar> mod 60) = \<bar>off\<bar>" by simp
  ultimately show ?thesis using False
    by (auto simp: parse_zone_def format_zone_def p q simp del: of_nat_add)
qed

lemma format_zone_hd: "format_zone off \<noteq> [] \<and> \<not> is_digit (hd (format_zone off)) \<and> hd (format_zone off) \<noteq> CHR ''.''"
  by (auto simp: format_zone_def is_digit_def)

lemma parse_time_fields:
  assumes "1970 \<le> y" "y \<le> 9999" "1 \<le> m" "m \<le> 12" "md < month_days y m"
    and "h \<le> 23" "mi \<le> 59" "sec \<le> 59" "ns < 1000000000" "\<bar>off\<bar> < 1440"
  shows "parse_time (pad 4 y @ ''-'' @ pad 2 m @ ''-'' @ pad 2 (Suc md) @ ''T'' @
      pad 2 h @ '':'' @ pad 2 mi @ '':'' @ pad 2 sec @ format_frac ns @ format_zone off)
    = Some (int ((days_to_year 1970 y + days_to_month y 1 m + md) * 86400 + h * 3600 + mi * 60 + sec)
        * second + int ns - off * minute)"
proof -
  have "month_days y m \<le> 31" by (simp add: month_days_def)
  with assms(5) have "Suc md mod 100 = Suc md" by simp
  moreover have "parse_frac (format_frac ns @ format_zone off) = (ns, format_zone off)"
    using assms(9) format_zone_hd by (intro parse_frac_format) auto
  ultimately show ?thesis
    using assms parse_zone_format [OF assms(10)]
      parse_num_pad [of 4 y] parse_num_pad [of 2 m] parse_num_pad [of 2 "Suc md"]
      parse_num_pad [of 2 h] parse_num_pad [of 2 mi] parse_num_pad [of 2 sec]
    by (simp add: parse_time_def)
qed

text \<open>A timestamp the Redis store writes is read back as the same instant.\<close>

theorem parse_format_time:
  assumes "0 \<le> t + off * minute" and "year_of off t \<le> 9999" and "\<bar>off\<bar> < 1440"
  shows "parse_time (format_time off t) = Some t"
proof -
  define loc where "loc = t + off * minute"
  define days where "days = nat (loc div second div 86400)"
  define sod where "sod = nat (loc div second mod 86400)"
  define ns where "ns = nat (loc mod second)"
  obtain y yd where y: "split_year 1970 days = (y, yd)" by (cases "split_year 1970 days")
  obtain m md where m: "split_month y 1 yd = (m, md)" by (cases "split_month y 1 yd")
  note Y = split_year_correct [OF y]
  have M: "1 \<le> m \<and> m \<le> 12 \<and> md < month_days y m \<and> days_to_month y 1 m + md = yd"
    using split_month_correct [OF m] Y by (simp add: days_to_month_year del: One_nat_def)
  have y9: "y \<le> 9999" using assms(2) y by (simp add: year_of_def loc_def days_def)
  have sod: "sod < 86400" by (simp add: sod_def nat_less_iff)
  have eq: "format_time off t = pad 4 y @ ''-'' @ pad 2 m @ ''-'' @ pad 2 (Suc md) @ ''T'' @
      pad 2 (sod div 3600) @ '':'' @ pad 2 (sod div 60 mod 60) @ '':'' @ pad 2 (sod mod 60) @
      format_frac ns @ format_zone off"
    using y m by (simp add: format_time_def Let_def loc_def days_def sod_def ns_def del: One_nat_def)
  have "sod div 3600 * 3600 + sod div 60 mod 60 * 60 + sod mod 60
      = (sod div 60 div 60 * 60 + sod div 60 mod 60) * 60 + sod mod 60"
    by (simp add: div_mult2_eq [symmetric] algebra_simps)
  also have "\<dots> = sod" by (simp only: div_mult_mod_eq)
  finally have "sod div 3600 * 3600 + sod div 60 mod 60 * 60 + sod mod 60 = sod" .
  then have "(days_to_year 1970 y + days_to_month y 1 m + md) * 86400
      + sod div 3600 * 3600 + sod div 60 mod 60 * 60 + sod mod 60 = days * 86400 + sod"
    using Y M by simp
  moreover have "int (days * 86400 + sod) = loc div second"
    using assms(1) by (simp add: days_def sod_def loc_def pos_imp_zdiv_nonneg_iff)
  moreover have "loc div second * second + int ns = loc"
    by (simp add: ns_def)
  ultimately have t: "int ((days_to_year 1970 y + days_to_month y 1 m + md) * 86400
      + sod div 3600 * 3600 + sod div 60 mod 60 * 60 + sod mod 60) * second + int ns - off * minute = t"
    by (simp only: loc_def)
  have b: "1970 \<le> y" "1 \<le> m" "m \<le> 12" "md < month_days y m" "ns < 1000000000"
    "sod div 3600 \<le> 23" "sod div 60 mod 60 \<le> 59" "sod mod 60 \<le> 59"
    using Y M sod by (auto simp: ns_def nat_less_iff)
  show ?thesis
    unfolding eq parse_time_fields [OF b(1) y9 b(2-4) b(6-8) b(5) assms(3)] t ..
qed

section \<open>Durations\<close>

text \<open>
  \<open>Duration.Round\<close> (to the nearest multiple, halves away from zero, saturating at the ends of
  the 64-bit range) and \<open>Duration.String\<close>.
\<close>

abbreviation (input) maxDuration :: duration where "maxDuration \<equiv> 2 ^ 63 - 1"
abbreviation (input) minDuration :: duration where "minDuration \<equiv> - (2 ^ 63)"

definition dur_Round :: "duration \<Rightarrow> duration \<Rightarrow> duration" where
  "dur_Round m d =
     (if m \<le> 0 then d
      else let r = \<bar>d\<bar> mod m in
        if d < 0 then
          (if r + r < m then d + r else if d - m + r \<ge> minDuration then d - m + r else minDuration)
        else
          (if r + r < m then d - r else if d + m - r \<le> maxDuration then d + m - r else maxDuration))"

function decimal :: "int \<Rightarrow> string" where
  "decimal n = (if n < 10 then [digit (nat n)] else decimal (n div 10) @ [digit (nat (n mod 10))])"
  by pat_completeness auto
termination
  by (relation "measure nat") auto

declare decimal.simps [simp del]

text \<open>
  \<open>fmtFrac\<close>: the last \<open>prec\<close> digits of \<open>v\<close> after a point, without trailing zeros, or
  nothing; the rest of \<open>v\<close> is returned.
\<close>

fun fmtFrac_loop :: "nat \<Rightarrow> int \<Rightarrow> bool \<Rightarrow> string \<Rightarrow> bool \<times> int \<times> string" where
  "fmtFrac_loop 0 v pr buf = (pr, v, buf)"
| "fmtFrac_loop (Suc prec) v pr buf =
     (let pr = (pr \<or> v mod 10 \<noteq> 0)
      in fmtFrac_loop prec (v div 10) pr (if pr then digit (nat (v mod 10)) # buf else buf))"

definition fmtFrac :: "int \<Rightarrow> nat \<Rightarrow> string \<Rightarrow> int \<times> string" where
  "fmtFrac v prec buf = (case fmtFrac_loop prec v False buf of
     (pr, v, buf) \<Rightarrow> (v, if pr then CHR ''.'' # buf else buf))"

definition dur_String :: "duration \<Rightarrow> string" where
  "dur_String d =
     (let u = \<bar>d\<bar>;
          body =
            (if u < 1000000000 then
               (if u = 0 then ''0s''
                else let (prec, unit) =
                       (if u < 1000 then (0, ''ns'')
                        else if u < 1000000 then (3, [CHR 0xC2, CHR 0xB5, CHR ''s''])
                        else (6, ''ms''));
                     (v, buf) = fmtFrac u prec unit
                 in decimal v @ buf)
             else let (v, buf) = fmtFrac u 9 ''s'';
                      buf = decimal (v mod 60) @ buf;
                      v = v div 60
                  in if v > 0 then
                       (let buf = decimal (v mod 60) @ ''m'' @ buf;
                            v = v div 60
                        in if v > 0 then decimal v @ ''h'' @ buf else buf)
                     else buf)
      in if d < 0 then CHR ''-'' # body else body)"

lemma dur_Round_near:
  assumes "0 < m" and "minDuration + m < d" and "d < maxDuration - m"
  shows "m dvd dur_Round m d \<and> 2 * \<bar>dur_Round m d - d\<bar> \<le> m"
proof -
  define r where "r = \<bar>d\<bar> mod m"
  have r: "0 \<le> r" "r < m" using assms(1) by (simp_all add: r_def)
  have dv: "m dvd \<bar>d\<bar> - r" unfolding r_def by (rule dvd_minus_mod)
  have rd: "dur_Round m d = (if d < 0 then (if r + r < m then d + r else d - m + r)
      else (if r + r < m then d - r else d + m - r))"
    unfolding dur_Round_def Let_def r_def [symmetric] using assms r by simp
  show ?thesis
  proof (cases "d < 0")
    case True
    then have "m dvd - (\<bar>d\<bar> - r)" "- (\<bar>d\<bar> - r) = d + r" using dv by (simp_all only: dvd_minus_iff)
    then have "m dvd d + r" by (simp add: add.commute)
    moreover from this have "m dvd d - m + r"
      using dvd_diff [of m "d + r" m] by (simp add: algebra_simps)
    ultimately show ?thesis using True r unfolding rd by simp
  next
    case False
    then have "m dvd d - r" using dv by simp
    moreover from this have "m dvd d + m - r"
      using dvd_add [of m "d - r" m] by (simp add: algebra_simps)
    ultimately show ?thesis using False r unfolding rd by simp
  qed
qed

end
