(* ===== verification/Store.thy ===== *)
theory Store
  imports Prelude
begin

text \<open>
  The store interface (\<open>src/internal/store/store.go\<close>): the data it exchanges, the Go
  interface \<open>Store\<close> as a record of operations, the abstract specification of its
  state machine per repository key (idle, queued, running with an optional deferred
  rerun), and the contract an implementation has to meet as a locale. The dispatcher is
  verified against the contract; the memory store and the Redis store are shown to meet it.
\<close>

section \<open>Data\<close>

text \<open>\<open>State\<close> is a Go string type; a repository without an entry is idle.\<close>

type_synonym state = string

abbreviation StateQueued :: state where "StateQueued \<equiv> ''queued''"
abbreviation StateRunning :: state where "StateRunning \<equiv> ''running''"

datatype QueueResult = Queued | Coalesced | Deferred

record RepoStatus =
  State :: state
  Reason :: string
  Since :: go_time
  PendingRerun :: bool

section \<open>The interface\<close>

text \<open>
  The Go interface value is a record of its methods. A method that reads
  \<open>time.Now()\<close> takes the reading as its first argument; a method of a stateful
  implementation returns the new state.
\<close>

record 's store_ops =
  Queue :: "go_time \<Rightarrow> string \<Rightarrow> string \<Rightarrow> 's \<Rightarrow> QueueResult \<times> 's"
  StartRun :: "go_time \<Rightarrow> string \<Rightarrow> 's \<Rightarrow> 's"
  FinishRun :: "string \<Rightarrow> 's \<Rightarrow> bool \<times> 's"
  Adopt :: "go_time \<Rightarrow> string \<Rightarrow> string \<Rightarrow> 's \<Rightarrow> 's"
  Snapshot :: "'s \<Rightarrow> (string \<rightharpoonup> RepoStatus) \<times> 's"
  SaveRunHandle :: "string \<Rightarrow> string \<Rightarrow> 's \<Rightarrow> 's"
  LoadRunHandles :: "'s \<Rightarrow> (string \<rightharpoonup> string) \<times> 's"
  DeleteRunHandle :: "string \<Rightarrow> 's \<Rightarrow> 's"

section \<open>Abstract specification\<close>

text \<open>
  The comments of the interface as functions on the abstract state, a map from keys to
  statuses: \<open>Queued\<close> means the repository was idle and is now queued, \<open>Coalesced\<close>
  that it was already queued, \<open>Deferred\<close> that it is running and a rerun is flagged.
\<close>

type_synonym statuses = "string \<rightharpoonup> RepoStatus"

definition spec_queue :: "go_time \<Rightarrow> string \<Rightarrow> string \<Rightarrow> statuses \<Rightarrow> QueueResult \<times> statuses" where
  "spec_queue now key reason m = (case m key of
       None \<Rightarrow> (Queued, m(key \<mapsto> \<lparr>State = StateQueued, Reason = reason, Since = now,
                                   PendingRerun = False\<rparr>))
     | Some st \<Rightarrow> if State st = StateRunning then (Deferred, m(key \<mapsto> st\<lparr>PendingRerun := True\<rparr>))
                  else (Coalesced, m))"

definition spec_start :: "go_time \<Rightarrow> string \<Rightarrow> statuses \<Rightarrow> statuses" where
  "spec_start now key m = (case m key of
       None \<Rightarrow> m
     | Some st \<Rightarrow> m(key \<mapsto> st\<lparr>State := StateRunning, Since := now\<rparr>))"

definition spec_finish :: "string \<Rightarrow> statuses \<Rightarrow> bool \<times> statuses" where
  "spec_finish key m = (case m key of None \<Rightarrow> False | Some st \<Rightarrow> PendingRerun st, m(key := None))"

definition spec_adopt :: "go_time \<Rightarrow> string \<Rightarrow> string \<Rightarrow> statuses \<Rightarrow> statuses" where
  "spec_adopt now key reason m = (case m key of
       None \<Rightarrow> m(key \<mapsto> \<lparr>State = StateRunning, Reason = reason, Since = now, PendingRerun = False\<rparr>)
     | Some st \<Rightarrow> m)"

lemmas spec_defs = spec_queue_def spec_start_def spec_finish_def spec_adopt_def

section \<open>The contract\<close>

text \<open>
  An implementation meets the contract when, under its invariant, its operations act on
  its \<open>view\<close> (the statuses it stands for) as the specification does, and its handle
  operations are a map that is independent of the statuses.
\<close>

locale store_contract =
  fixes ops :: "'s store_ops"
    and view :: "'s \<Rightarrow> statuses"
    and handles :: "'s \<Rightarrow> string \<rightharpoonup> string"
    and invar :: "'s \<Rightarrow> bool"
    and clock_ok :: "go_time \<Rightarrow> bool"
  assumes queue_spec: "invar s \<Longrightarrow> clock_ok now \<Longrightarrow> Queue ops now k r s = (q, s') \<Longrightarrow>
      q = fst (spec_queue now k r (view s)) \<and> view s' = snd (spec_queue now k r (view s)) \<and> handles s' = handles s \<and> invar s'"
    and start_spec: "invar s \<Longrightarrow> clock_ok now \<Longrightarrow> StartRun ops now k s = s' \<Longrightarrow>
      view s' = spec_start now k (view s) \<and> handles s' = handles s \<and> invar s'"
    and finish_spec: "invar s \<Longrightarrow> FinishRun ops k s = (b, s') \<Longrightarrow>
      b = fst (spec_finish k (view s)) \<and> view s' = snd (spec_finish k (view s)) \<and> handles s' = handles s \<and> invar s'"
    and adopt_spec: "invar s \<Longrightarrow> clock_ok now \<Longrightarrow> Adopt ops now k r s = s' \<Longrightarrow>
      view s' = spec_adopt now k r (view s) \<and> handles s' = handles s \<and> invar s'"
    and snapshot_spec: "invar s \<Longrightarrow> Snapshot ops s = (view s, s)"
    and save_spec: "invar s \<Longrightarrow> SaveRunHandle ops k d s = s' \<Longrightarrow>
      handles s' = (handles s)(k \<mapsto> d) \<and> view s' = view s \<and> invar s'"
    and load_spec: "invar s \<Longrightarrow> LoadRunHandles ops s = (handles s, s)"
    and delete_spec: "invar s \<Longrightarrow> DeleteRunHandle ops k s = s' \<Longrightarrow>
      handles s' = (handles s)(k := None) \<and> view s' = view s \<and> invar s'"
begin

text \<open>The result tells what the repository was, and what it is afterwards.\<close>

lemma queue_cases:
  assumes "invar s" "clock_ok now" "Queue ops now k r s = (q, s')"
  obtains (queued) "q = Queued" "view s k = None"
      "view s' = (view s)(k \<mapsto> \<lparr>State = StateQueued, Reason = r, Since = now, PendingRerun = False\<rparr>)"
  | (coalesced) st where "q = Coalesced" "view s k = Some st" "State st \<noteq> StateRunning"
      "view s' = view s"
  | (deferred) st where "q = Deferred" "view s k = Some st" "State st = StateRunning"
      "view s' = (view s)(k \<mapsto> st\<lparr>PendingRerun := True\<rparr>)"
  using queue_spec [OF assms] by (auto simp: spec_queue_def split: option.splits if_splits)

lemma queue_invar: "invar s \<Longrightarrow> clock_ok now \<Longrightarrow> invar (snd (Queue ops now k r s))"
  using queue_spec [of s now k r] by (cases "Queue ops now k r s") simp

lemma finish_view: "invar s \<Longrightarrow> view (snd (FinishRun ops k s)) = (view s)(k := None)"
  using finish_spec [of s k] by (cases "FinishRun ops k s") (simp add: spec_finish_def)

text \<open>
  The life of one run as the semantics test of the repository describes it: the first
  request queues, every further one coalesces, a request during the run defers, and
  finishing reports exactly whether a request was deferred and leaves the key idle.
\<close>

lemma rerun_reported:
  assumes inv: "invar s" "clock_ok now" and run: "view s k = Some st" "State st = StateRunning"
    and q: "Queue ops now k r s = (q, s1)" and f: "FinishRun ops k s1 = (b, s2)"
  shows "q = Deferred \<and> b \<and> view s2 k = None"
  using queue_spec [OF inv q] run f finish_spec [of s1 k b s2]
  by (auto simp: spec_queue_def spec_finish_def)

end

end
