(* ===== verification/Memory_Store.thy ===== *)
theory Memory_Store
  imports Store
begin

text \<open>
  The in-memory store (\<open>src/internal/store/memory.go\<close>). Every method holds the mutex for
  its whole body, so each is one atomic function on the state; the map of pointers to
  \<open>repoState\<close> is a map of values, since no pointer leaves the methods.
\<close>

section \<open>State and operations\<close>

record repoState =
  rs_state :: state
  rs_reason :: string
  rs_since :: go_time
  rs_pendingRerun :: bool

record memory =
  repos :: "string \<rightharpoonup> repoState"
  mem_handles :: "string \<rightharpoonup> string"

definition NewMemory :: memory where
  "NewMemory = \<lparr>repos = Map.empty, mem_handles = Map.empty\<rparr>"

definition memory_Queue :: "go_time \<Rightarrow> string \<Rightarrow> string \<Rightarrow> memory \<Rightarrow> QueueResult \<times> memory" where
  "memory_Queue now key reason m =
     (case repos m key of
        None \<Rightarrow>
          (Queued, m\<lparr>repos := (repos m)(key \<mapsto>
             \<lparr>rs_state = StateQueued, rs_reason = reason, rs_since = now, rs_pendingRerun = False\<rparr>)\<rparr>)
      | Some rs \<Rightarrow>
          if rs_state rs = StateRunning
          then (Deferred, m\<lparr>repos := (repos m)(key \<mapsto> rs\<lparr>rs_pendingRerun := True\<rparr>)\<rparr>)
          else (Coalesced, m))"

definition memory_StartRun :: "go_time \<Rightarrow> string \<Rightarrow> memory \<Rightarrow> memory" where
  "memory_StartRun now key m =
     (case repos m key of
        Some rs \<Rightarrow> m\<lparr>repos := (repos m)(key \<mapsto> rs\<lparr>rs_state := StateRunning, rs_since := now\<rparr>)\<rparr>
      | None \<Rightarrow> m)"

definition memory_FinishRun :: "string \<Rightarrow> memory \<Rightarrow> bool \<times> memory" where
  "memory_FinishRun key m =
     (case repos m key of
        None \<Rightarrow> (False, m)
      | Some rs \<Rightarrow> let rerun = rs_pendingRerun rs in (rerun, m\<lparr>repos := (repos m)(key := None)\<rparr>))"

definition memory_Adopt :: "go_time \<Rightarrow> string \<Rightarrow> string \<Rightarrow> memory \<Rightarrow> memory" where
  "memory_Adopt now key reason m =
     (case repos m key of
        None \<Rightarrow> m\<lparr>repos := (repos m)(key \<mapsto>
          \<lparr>rs_state = StateRunning, rs_reason = reason, rs_since = now, rs_pendingRerun = False\<rparr>)\<rparr>
      | Some _ \<Rightarrow> m)"

definition memory_SaveRunHandle :: "string \<Rightarrow> string \<Rightarrow> memory \<Rightarrow> memory" where
  "memory_SaveRunHandle key data m = m\<lparr>mem_handles := (mem_handles m)(key \<mapsto> data)\<rparr>"

definition memory_LoadRunHandles :: "memory \<Rightarrow> (string \<rightharpoonup> string) \<times> memory" where
  "memory_LoadRunHandles m = (mem_handles m, m)"

definition memory_DeleteRunHandle :: "string \<Rightarrow> memory \<Rightarrow> memory" where
  "memory_DeleteRunHandle key m = m\<lparr>mem_handles := (mem_handles m)(key := None)\<rparr>"

definition memory_Snapshot :: "memory \<Rightarrow> (string \<rightharpoonup> RepoStatus) \<times> memory" where
  "memory_Snapshot m =
     (\<lambda>k. map_option (\<lambda>rs. \<lparr>State = rs_state rs, Reason = rs_reason rs, Since = rs_since rs,
                             PendingRerun = rs_pendingRerun rs\<rparr>) (repos m k), m)"

definition memory_ops :: "memory store_ops" where
  "memory_ops = \<lparr>Queue = memory_Queue, StartRun = memory_StartRun, FinishRun = memory_FinishRun,
     Adopt = memory_Adopt, Snapshot = memory_Snapshot, SaveRunHandle = memory_SaveRunHandle,
     LoadRunHandles = memory_LoadRunHandles, DeleteRunHandle = memory_DeleteRunHandle\<rparr>"

section \<open>The memory store meets the contract\<close>

lemmas memory_defs = memory_Queue_def memory_StartRun_def memory_FinishRun_def memory_Adopt_def
  memory_SaveRunHandle_def memory_LoadRunHandles_def memory_DeleteRunHandle_def memory_Snapshot_def

definition memory_view :: "memory \<Rightarrow> statuses" where
  "memory_view m = fst (memory_Snapshot m)"

lemma memory_view_apply: "memory_view m k = map_option (\<lambda>rs. \<lparr>State = rs_state rs,
    Reason = rs_reason rs, Since = rs_since rs, PendingRerun = rs_pendingRerun rs\<rparr>) (repos m k)"
  by (simp add: memory_view_def memory_Snapshot_def)

interpretation mem: store_contract memory_ops memory_view mem_handles "\<lambda>_. True" "\<lambda>_. True"
  by unfold_locales
    (auto simp: memory_ops_def memory_defs spec_defs memory_view_apply fun_eq_iff Let_def
      memory_view_def split: option.splits if_splits)

lemma memory_view_New: "memory_view NewMemory = Map.empty"
  by (simp add: memory_view_apply NewMemory_def fun_eq_iff)

section \<open>Properties\<close>

text \<open>
  C9. The memory store refines the abstract store specification in every state: each
  operation returns what the specification returns and changes the viewed statuses and
  the run handles as the specification does.
\<close>

theorem memory_store_meets_contract:
  "store_contract memory_ops memory_view mem_handles (\<lambda>_. True) (\<lambda>_. True)"
  by (rule mem.store_contract_axioms)

end
