(* ===== verification/Redis_Store.thy ===== *)
theory Redis_Store
  imports Store GoTime Config "HOL-Library.Sublist"
begin

text \<open>
  The Redis store (\<open>src/internal/store/redis.go\<close>). The Redis server is not part of the
  program: its commands are a parameter, a record \<open>redis\<close> of functions on an opaque
  database, and what the store relies on is the locale \<open>redis_server\<close> of their
  documented behaviour. The Lua scripts are functions over the commands; each script is
  atomic. A network call may fail before or after it reached the server; the failures a
  run meets are a schedule in the store's state.
\<close>

section \<open>The Redis commands\<close>

record 'r redis =
  HGET :: "string \<Rightarrow> string \<Rightarrow> 'r \<Rightarrow> string option"
  HSET :: "string \<Rightarrow> (string \<times> string) list \<Rightarrow> 'r \<Rightarrow> 'r"
  HGETALL :: "string \<Rightarrow> 'r \<Rightarrow> (string \<times> string) list"
  EXISTS :: "string \<Rightarrow> 'r \<Rightarrow> int"
  EXPIRE :: "string \<Rightarrow> int \<Rightarrow> 'r \<Rightarrow> 'r"
  DEL :: "string \<Rightarrow> 'r \<Rightarrow> 'r"
  GET :: "string \<Rightarrow> 'r \<Rightarrow> string option"
  SET :: "string \<Rightarrow> string \<Rightarrow> duration \<Rightarrow> 'r \<Rightarrow> 'r"
  SCAN :: "string \<Rightarrow> 'r \<Rightarrow> string list"

section \<open>The Lua scripts\<close>

definition queueScript :: "'r redis \<Rightarrow> string \<Rightarrow> string \<Rightarrow> string \<Rightarrow> int \<Rightarrow> 'r \<Rightarrow> int \<times> 'r" where
  "queueScript R key reason since ttl db =
     (case HGET R key ''state'' db of
        None \<Rightarrow>
          let db = HSET R key [(''state'', ''queued''), (''reason'', reason), (''since'', since),
                               (''rerun'', '''')] db;
              db = EXPIRE R key ttl db
          in (0, db)
      | Some state \<Rightarrow>
          let db = EXPIRE R key ttl db
          in if state = ''running'' then (2, HSET R key [(''rerun'', ''1'')] db) else (1, db))"

definition startRunScript :: "'r redis \<Rightarrow> string \<Rightarrow> string \<Rightarrow> int \<Rightarrow> 'r \<Rightarrow> int \<times> 'r" where
  "startRunScript R key since ttl db =
     (if EXISTS R key db = 1 then
        let db = HSET R key [(''state'', ''running''), (''since'', since)] db;
            db = EXPIRE R key ttl db
        in (0, db)
      else (0, db))"

definition finishRunScript :: "'r redis \<Rightarrow> string \<Rightarrow> 'r \<Rightarrow> int \<times> 'r" where
  "finishRunScript R key db =
     (let rerun = HGET R key ''rerun'' db;
          db = DEL R key db
      in if rerun = Some ''1'' then (1, db) else (0, db))"

definition adoptScript :: "'r redis \<Rightarrow> string \<Rightarrow> string \<Rightarrow> string \<Rightarrow> int \<Rightarrow> 'r \<Rightarrow> int \<times> 'r" where
  "adoptScript R key reason since ttl db =
     (let db = (if EXISTS R key db = 0 then
                  HSET R key [(''state'', ''running''), (''reason'', reason), (''since'', since),
                              (''rerun'', '''')] db
                else db)
      in (0, EXPIRE R key ttl db))"

section \<open>The store\<close>

text \<open>
  \<open>NetLost\<close>: the call failed and the server never saw it. \<open>NetReplyLost\<close>: the server
  executed it but the caller got an error (a timeout, a broken connection).
\<close>

datatype net = NetOk | NetLost | NetReplyLost

text \<open>
  The Go struct, with the schedule of the network and the zone of \<open>time.Now()\<close> in
  minutes east of UTC. Calls beyond the end of the schedule succeed.
\<close>

record 'r redisStore =
  client :: 'r
  keyPrefix :: string
  ttl :: duration
  zone :: int
  net :: "net list"

datatype redis_error = ParseRedisURL | ConnectRedis

text \<open>\<open>parseURL\<close> and \<open>ping\<close> are the go-redis functions that may fail.\<close>

definition NewRedis ::
  "(string \<Rightarrow> 'o option) \<Rightarrow> ('o \<Rightarrow> 'r) \<Rightarrow> ('r \<Rightarrow> bool) \<Rightarrow> int \<Rightarrow> net list \<Rightarrow> RedisConfig
    \<Rightarrow> redis_error + 'r redisStore" where
  "NewRedis parseURL newClient ping z ns cfg =
     (case parseURL (redis_URL cfg) of
        None \<Rightarrow> Inl ParseRedisURL
      | Some opts \<Rightarrow>
          let c = newClient opts
          in if \<not> ping c then Inl ConnectRedis
             else Inr \<lparr>client = c, keyPrefix = redis_KeyPrefix cfg, ttl = redis_TTL cfg, zone = z, net = ns\<rparr>)"

definition redis_key :: "'r redisStore \<Rightarrow> string \<Rightarrow> string" where
  "redis_key r repoKey = keyPrefix r @ ''repo:'' @ repoKey"

definition redis_handleKey :: "'r redisStore \<Rightarrow> string \<Rightarrow> string" where
  "redis_handleKey r repoKey = keyPrefix r @ ''handle:'' @ repoKey"

text \<open>\<open>int64(r.ttl.Seconds())\<close> truncates towards zero.\<close>

definition ttlSeconds :: "'r redisStore \<Rightarrow> int" where
  "ttlSeconds r = (if ttl r < 0 then - (- ttl r div second) else ttl r div second)"

text \<open>One call over the network: the reply (\<^const>\<open>None\<close> is an error) and the store after it.\<close>

definition redis_call :: "('r \<Rightarrow> 'a \<times> 'r) \<Rightarrow> 'r redisStore \<Rightarrow> 'a option \<times> 'r redisStore" where
  "redis_call f r =
     (case net r of
        [] \<Rightarrow> let (a, db) = f (client r) in (Some a, r\<lparr>client := db\<rparr>)
      | n # ns \<Rightarrow>
          (case n of
             NetOk \<Rightarrow> let (a, db) = f (client r) in (Some a, r\<lparr>client := db, net := ns\<rparr>)
           | NetLost \<Rightarrow> (None, r\<lparr>net := ns\<rparr>)
           | NetReplyLost \<Rightarrow> (None, r\<lparr>client := snd (f (client r)), net := ns\<rparr>)))"

definition redis_Queue ::
  "'r redis \<Rightarrow> go_time \<Rightarrow> string \<Rightarrow> string \<Rightarrow> 'r redisStore \<Rightarrow> QueueResult \<times> 'r redisStore" where
  "redis_Queue R now repoKey reason r =
     (let (reply, r') = redis_call
            (queueScript R (redis_key r repoKey) reason (format_time (zone r) now) (ttlSeconds r)) r
      in case reply of
           None \<Rightarrow> (Coalesced, r')
         | Some res \<Rightarrow> (if res = 0 then Queued else if res = 2 then Deferred else Coalesced, r'))"

definition redis_StartRun :: "'r redis \<Rightarrow> go_time \<Rightarrow> string \<Rightarrow> 'r redisStore \<Rightarrow> 'r redisStore" where
  "redis_StartRun R now repoKey r =
     snd (redis_call (startRunScript R (redis_key r repoKey) (format_time (zone r) now) (ttlSeconds r)) r)"

definition redis_FinishRun :: "'r redis \<Rightarrow> string \<Rightarrow> 'r redisStore \<Rightarrow> bool \<times> 'r redisStore" where
  "redis_FinishRun R repoKey r =
     (let (reply, r') = redis_call (finishRunScript R (redis_key r repoKey)) r
      in case reply of None \<Rightarrow> (False, r') | Some res \<Rightarrow> (res = 1, r'))"

definition redis_Adopt :: "'r redis \<Rightarrow> go_time \<Rightarrow> string \<Rightarrow> string \<Rightarrow> 'r redisStore \<Rightarrow> 'r redisStore" where
  "redis_Adopt R now repoKey reason r =
     snd (redis_call
       (adoptScript R (redis_key r repoKey) reason (format_time (zone r) now) (ttlSeconds r)) r)"

definition redis_SaveRunHandle :: "'r redis \<Rightarrow> string \<Rightarrow> string \<Rightarrow> 'r redisStore \<Rightarrow> 'r redisStore" where
  "redis_SaveRunHandle R key data r =
     snd (redis_call (\<lambda>db. ((), SET R (redis_handleKey r key) data (ttl r) db)) r)"

definition redis_DeleteRunHandle :: "'r redis \<Rightarrow> string \<Rightarrow> 'r redisStore \<Rightarrow> 'r redisStore" where
  "redis_DeleteRunHandle R key r =
     snd (redis_call (\<lambda>db. ((), DEL R (redis_handleKey r key) db)) r)"

definition TrimPrefix :: "string \<Rightarrow> string \<Rightarrow> string" where
  "TrimPrefix s p = (if hasPrefix s p then drop (length p) s else s)"

text \<open>
  The scan loops: a failing \<open>GET\<close> or \<open>HGETALL\<close> skips the key, a failing scan ends the
  loop with what was read so far.
\<close>

fun load_loop :: "'r redis \<Rightarrow> string list \<Rightarrow> (string \<rightharpoonup> string) \<Rightarrow> 'r redisStore
    \<Rightarrow> (string \<rightharpoonup> string) \<times> 'r redisStore" where
  "load_loop R [] out r = (out, r)"
| "load_loop R (key # keys) out r =
     (let (reply, r') = redis_call (\<lambda>db. (GET R key db, db)) r
      in case reply of
           Some (Some data) \<Rightarrow>
             load_loop R keys (out(TrimPrefix key (keyPrefix r @ ''handle:'') \<mapsto> data)) r'
         | _ \<Rightarrow> load_loop R keys out r')"

definition redis_LoadRunHandles :: "'r redis \<Rightarrow> 'r redisStore \<Rightarrow> (string \<rightharpoonup> string) \<times> 'r redisStore" where
  "redis_LoadRunHandles R r =
     (let (reply, r') = redis_call (\<lambda>db. (SCAN R (keyPrefix r @ ''handle:*'') db, db)) r
      in case reply of None \<Rightarrow> (Map.empty, r') | Some keys \<Rightarrow> load_loop R keys Map.empty r')"

text \<open>The zero \<open>time.Time\<close>, which a failing \<open>time.Parse\<close> leaves: 1 January of year 1.\<close>

abbreviation zero_time :: go_time where "zero_time \<equiv> - 62135596800 * second"

text \<open>A missing field of a Go map reads as the empty string.\<close>

definition field :: "(string \<rightharpoonup> string) \<Rightarrow> string \<Rightarrow> string" where
  "field h f = (case h f of None \<Rightarrow> [] | Some v \<Rightarrow> v)"

definition status_of :: "(string \<rightharpoonup> string) \<Rightarrow> RepoStatus" where
  "status_of h = \<lparr>State = field h ''state'', Reason = field h ''reason'',
     Since = (case parse_time (field h ''since'') of None \<Rightarrow> zero_time | Some t \<Rightarrow> t),
     PendingRerun = (field h ''rerun'' = ''1'')\<rparr>"

fun snapshot_loop :: "'r redis \<Rightarrow> string list \<Rightarrow> statuses \<Rightarrow> 'r redisStore \<Rightarrow> statuses \<times> 'r redisStore" where
  "snapshot_loop R [] out r = (out, r)"
| "snapshot_loop R (key # keys) out r =
     (let (reply, r') = redis_call (\<lambda>db. (HGETALL R key db, db)) r
      in case reply of
           None \<Rightarrow> snapshot_loop R keys out r'
         | Some flds \<Rightarrow>
             if flds = [] then snapshot_loop R keys out r'
             else snapshot_loop R keys
                    (out(TrimPrefix key (keyPrefix r @ ''repo:'') \<mapsto> status_of (map_of flds))) r')"

definition redis_Snapshot :: "'r redis \<Rightarrow> 'r redisStore \<Rightarrow> statuses \<times> 'r redisStore" where
  "redis_Snapshot R r =
     (let (reply, r') = redis_call (\<lambda>db. (SCAN R (keyPrefix r @ ''repo:*'') db, db)) r
      in case reply of None \<Rightarrow> (Map.empty, r') | Some keys \<Rightarrow> snapshot_loop R keys Map.empty r')"

definition redis_ops :: "'r redis \<Rightarrow> 'r redisStore store_ops" where
  "redis_ops R = \<lparr>Queue = redis_Queue R, StartRun = redis_StartRun R, FinishRun = redis_FinishRun R,
     Adopt = redis_Adopt R, Snapshot = redis_Snapshot R, SaveRunHandle = redis_SaveRunHandle R,
     LoadRunHandles = redis_LoadRunHandles R, DeleteRunHandle = redis_DeleteRunHandle R\<rparr>"

lemma key_client [simp]: "redis_key (r\<lparr>client := db\<rparr>) k = redis_key r k"
  and handleKey_client [simp]: "redis_handleKey (r\<lparr>client := db\<rparr>) k = redis_handleKey r k"
  and ttlSeconds_client [simp]: "ttlSeconds (r\<lparr>client := db\<rparr>) = ttlSeconds r"
  by (simp_all add: redis_key_def redis_handleKey_def ttlSeconds_def)

section \<open>What the store relies on\<close>

text \<open>
  The documented behaviour of the commands, over the live values of the database: a
  key is absent or holds a hash or a string. \<open>HGET\<close> and its kin are only specified on
  keys of the right type. \<open>EXPIRE\<close> with a positive time and \<open>SET\<close> with a positive
  expiration leave the live values alone until time passes.
\<close>

datatype rval = RHash "string \<rightharpoonup> string" | RStr string

definition glob_free :: "string \<Rightarrow> bool" where
  "glob_free p \<longleftrightarrow> (\<forall>c \<in> set p. c \<notin> {CHR ''*'', CHR ''?'', CHR ''['', CHR '']'', CHR 0x5C})"

locale redis_server =
  fixes R :: "'r redis"
    and val :: "'r \<Rightarrow> string \<Rightarrow> rval option"
  assumes hget_none: "val db k = None \<Longrightarrow> HGET R k f db = None"
    and hget_hash: "val db k = Some (RHash h) \<Longrightarrow> HGET R k f db = h f"
    and hset_none: "val db k = None \<Longrightarrow> fs \<noteq> [] \<Longrightarrow>
      val (HSET R k fs db) = (val db)(k \<mapsto> RHash (map_of (rev fs)))"
    and hset_hash: "val db k = Some (RHash h) \<Longrightarrow> fs \<noteq> [] \<Longrightarrow>
      val (HSET R k fs db) = (val db)(k \<mapsto> RHash (h ++ map_of (rev fs)))"
    and hgetall_none: "val db k = None \<Longrightarrow> HGETALL R k db = []"
    and hgetall_hash: "val db k = Some (RHash h) \<Longrightarrow> map_of (HGETALL R k db) = h"
    and exists_val: "EXISTS R k db = (if val db k = None then 0 else 1)"
    and expire_val: "0 < n \<Longrightarrow> val (EXPIRE R k n db) = val db"
    and del_val: "val (DEL R k db) = (val db)(k := None)"
    and get_none: "val db k = None \<Longrightarrow> GET R k db = None"
    and get_str: "val db k = Some (RStr v) \<Longrightarrow> GET R k db = Some v"
    and set_val: "0 < d \<Longrightarrow> val (SET R k v d db) = (val db)(k \<mapsto> RStr v)"
    and scan_keys: "glob_free p \<Longrightarrow>
      set (SCAN R (p @ ''*'') db) = {k. val db k \<noteq> None \<and> hasPrefix k p}"

text \<open>The statuses and handles a database stands for.\<close>

definition repo_view :: "('r \<Rightarrow> string \<Rightarrow> rval option) \<Rightarrow> 'r redisStore \<Rightarrow> statuses" where
  "repo_view val r k = (case val (client r) (redis_key r k) of
     Some (RHash h) \<Rightarrow> Some (status_of h) | _ \<Rightarrow> None)"

definition handle_view :: "('r \<Rightarrow> string \<Rightarrow> rval option) \<Rightarrow> 'r redisStore \<Rightarrow> string \<rightharpoonup> string" where
  "handle_view val r k = (case val (client r) (redis_handleKey r k) of
     Some (RStr v) \<Rightarrow> Some v | _ \<Rightarrow> None)"

text \<open>
  The invariant: the network is up, the TTL is at least a second, every repository key
  holds a hash with a state and every handle key a string.
\<close>

definition repo_ok :: "rval option \<Rightarrow> bool" where
  "repo_ok v \<longleftrightarrow> (case v of None \<Rightarrow> True | Some (RHash h) \<Rightarrow> h ''state'' \<noteq> None | Some (RStr _) \<Rightarrow> False)"

definition handle_ok :: "rval option \<Rightarrow> bool" where
  "handle_ok v \<longleftrightarrow> (case v of Some (RHash _) \<Rightarrow> False | _ \<Rightarrow> True)"

definition redis_inv :: "('r \<Rightarrow> string \<Rightarrow> rval option) \<Rightarrow> int \<Rightarrow> 'r redisStore \<Rightarrow> bool" where
  "redis_inv val z r \<longleftrightarrow> net r = [] \<and> second \<le> ttl r \<and> zone r = z \<and> glob_free (keyPrefix r)
     \<and> (\<forall>k. repo_ok (val (client r) (redis_key r k)))
     \<and> (\<forall>k. handle_ok (val (client r) (redis_handleKey r k)))"

definition redis_clock_ok :: "int \<Rightarrow> go_time \<Rightarrow> bool" where
  "redis_clock_ok z now \<longleftrightarrow> 0 \<le> now + z * minute \<and> year_of z now \<le> 9999"

text \<open>A client of such a server whose process runs in a zone \<open>z\<close> minutes east of UTC.\<close>

locale redis_client = redis_server +
  fixes z :: int
  assumes zone_range: "\<bar>z\<bar> < 1440"
begin

lemma key_eq [simp]: "redis_key r k = redis_key r k' \<longleftrightarrow> k = k'"
  and handleKey_eq [simp]: "redis_handleKey r k = redis_handleKey r k' \<longleftrightarrow> k = k'"
  and key_neq [simp]: "redis_key r k \<noteq> redis_handleKey r k'" "redis_handleKey r k' \<noteq> redis_key r k"
  by (simp_all add: redis_key_def redis_handleKey_def)

lemma ttl_pos: "redis_inv val z r \<Longrightarrow> 0 < ttlSeconds r"
  by (auto simp: redis_inv_def ttlSeconds_def pos_imp_zdiv_pos_iff)

lemma call_ok: "net r = [] \<Longrightarrow> redis_call f r = (Some (fst (f (client r))), r\<lparr>client := snd (f (client r))\<rparr>)"
  by (simp add: redis_call_def case_prod_beta)

lemma since_ok: "redis_clock_ok z now \<Longrightarrow> parse_time (format_time z now) = Some now"
  using zone_range by (simp add: redis_clock_ok_def parse_format_time)

text \<open>Every operation replaces the value under one key; the rest follows.\<close>

lemma repo_update:
  assumes "redis_inv val z r" and "val db = (val (client r))(redis_key r k := v)" and "repo_ok v"
  shows "redis_inv val z (r\<lparr>client := db\<rparr>)"
    and "repo_view val (r\<lparr>client := db\<rparr>) = (repo_view val r)(k := (case v of Some (RHash h) \<Rightarrow> Some (status_of h) | _ \<Rightarrow> None))"
    and "handle_view val (r\<lparr>client := db\<rparr>) = handle_view val r"
  using assms by (auto simp: redis_inv_def repo_view_def handle_view_def fun_eq_iff)

lemma handle_update:
  assumes "redis_inv val z r" and "val db = (val (client r))(redis_handleKey r k := v)" and "handle_ok v"
  shows "redis_inv val z (r\<lparr>client := db\<rparr>)"
    and "handle_view val (r\<lparr>client := db\<rparr>) = (handle_view val r)(k := (case v of Some (RStr d) \<Rightarrow> Some d | _ \<Rightarrow> None))"
    and "repo_view val (r\<lparr>client := db\<rparr>) = repo_view val r"
  using assms by (auto simp: redis_inv_def repo_view_def handle_view_def fun_eq_iff)

lemma repo_cases:
  assumes "redis_inv val z r"
  obtains (idle) "val (client r) (redis_key r k) = None" "repo_view val r k = None"
  | (entry) h s where "val (client r) (redis_key r k) = Some (RHash h)" "h ''state'' = Some s"
      "repo_view val r k = Some (status_of h)"
proof -
  have "repo_ok (val (client r) (redis_key r k))" using assms by (simp add: redis_inv_def)
  then show thesis using idle entry
    by (auto simp: repo_ok_def repo_view_def split: option.splits rval.splits)
qed

subsection \<open>The operations refine the specification\<close>

lemma inv_zone: "redis_inv val z r \<Longrightarrow> zone r = z" and inv_net: "redis_inv val z r \<Longrightarrow> net r = []"
  by (simp_all add: redis_inv_def)

lemma status_of_fresh:
  "redis_clock_ok z now \<Longrightarrow> status_of (map_of (rev [(''state'', st), (''reason'', reason),
     (''since'', format_time z now), (''rerun'', '''')]))
   = \<lparr>State = st, Reason = reason, Since = now, PendingRerun = False\<rparr>"
  by (simp add: status_of_def field_def since_ok)

lemma status_of_rerun:
  "status_of (h ++ map_of (rev [(''rerun'', ''1'')])) = (status_of h)\<lparr>PendingRerun := True\<rparr>"
  by (simp add: status_of_def field_def map_add_def)

lemma status_of_start:
  "redis_clock_ok z now \<Longrightarrow> status_of (h ++ map_of (rev [(''state'', StateRunning), (''since'', format_time z now)]))
   = (status_of h)\<lparr>State := StateRunning, Since := now\<rparr>"
  by (simp add: status_of_def field_def map_add_def since_ok)

lemma redis_Queue_spec:
  assumes inv: "redis_inv val z r" and clk: "redis_clock_ok z now" and q: "redis_Queue R now k reason r = (q, r')"
  shows "q = fst (spec_queue now k reason (repo_view val r)) \<and>
    repo_view val r' = snd (spec_queue now k reason (repo_view val r)) \<and>
    handle_view val r' = handle_view val r \<and> redis_inv val z r'"
proof -
  let ?key = "redis_key r k"
  let ?sc = "queueScript R ?key reason (format_time z now) (ttlSeconds r) (client r)"
  have r': "q = (if fst ?sc = 0 then Queued else if fst ?sc = 2 then Deferred else Coalesced)"
    "r' = r\<lparr>client := snd ?sc\<rparr>"
    using q by (auto simp: redis_Queue_def call_ok [OF inv_net [OF inv]] inv_zone [OF inv])
  note ttl = expire_val [OF ttl_pos [OF inv]]
  from inv show ?thesis
  proof (cases rule: repo_cases [where k = k])
    case idle
    let ?m = "map_of (rev [(''state'', StateQueued), (''reason'', reason),
      (''since'', format_time z now), (''rerun'', '''')])"
    have "fst ?sc = 0" and v: "val (snd ?sc) = (val (client r))(?key := Some (RHash ?m))"
      using idle by (simp_all add: queueScript_def hget_none ttl hset_none)
    then show ?thesis
      using repo_update [OF inv v] idle r' status_of_fresh [OF clk, of StateQueued reason]
      by (simp add: repo_ok_def spec_queue_def)
  next
    case (entry h s)
    show ?thesis
    proof (cases "s = StateRunning")
      case True
      have "fst ?sc = 2" and v: "val (snd ?sc) = (val (client r))
          (?key := Some (RHash (h ++ map_of (rev [(''rerun'', ''1'')]))))"
        using entry True by (simp_all add: queueScript_def hget_hash ttl hset_hash)
      moreover have "State (status_of h) = StateRunning"
        using entry True by (simp add: status_of_def field_def)
      ultimately show ?thesis
        using repo_update [OF inv v] entry r' status_of_rerun [of h]
        by (simp add: repo_ok_def spec_queue_def)
    next
      case False
      have "fst ?sc = 1" and v: "val (snd ?sc) = (val (client r))(?key := Some (RHash h))"
        using entry False by (simp_all add: queueScript_def hget_hash ttl fun_upd_idem)
      moreover have "State (status_of h) \<noteq> StateRunning"
        using entry False by (simp add: status_of_def field_def)
      ultimately show ?thesis
        using repo_update [OF inv v] entry r' by (simp add: repo_ok_def spec_queue_def fun_upd_idem)
    qed
  qed
qed

lemma redis_StartRun_spec:
  assumes inv: "redis_inv val z r" and clk: "redis_clock_ok z now" and q: "redis_StartRun R now k r = r'"
  shows "repo_view val r' = spec_start now k (repo_view val r) \<and> handle_view val r' = handle_view val r \<and> redis_inv val z r'"
proof -
  let ?key = "redis_key r k"
  let ?sc = "startRunScript R ?key (format_time z now) (ttlSeconds r) (client r)"
  have r': "r' = r\<lparr>client := snd ?sc\<rparr>"
    using q by (auto simp: redis_StartRun_def call_ok [OF inv_net [OF inv]] inv_zone [OF inv])
  note ttl = expire_val [OF ttl_pos [OF inv]]
  from inv show ?thesis
  proof (cases rule: repo_cases [where k = k])
    case idle
    then have "snd ?sc = client r" by (simp add: startRunScript_def exists_val)
    with idle r' inv show ?thesis by (simp add: spec_start_def)
  next
    case (entry h s)
    have v: "val (snd ?sc) = (val (client r))(?key := Some (RHash
        (h ++ map_of (rev [(''state'', StateRunning), (''since'', format_time z now)]))))"
      using entry by (simp add: startRunScript_def exists_val ttl hset_hash)
    show ?thesis
      using repo_update [OF inv v] entry r' status_of_start [OF clk, of h]
      by (simp add: repo_ok_def spec_start_def)
  qed
qed

lemma redis_FinishRun_spec:
  assumes inv: "redis_inv val z r" and q: "redis_FinishRun R k r = (b, r')"
  shows "b = fst (spec_finish k (repo_view val r)) \<and> repo_view val r' = snd (spec_finish k (repo_view val r)) \<and>
    handle_view val r' = handle_view val r \<and> redis_inv val z r'"
proof -
  let ?key = "redis_key r k"
  let ?sc = "finishRunScript R ?key (client r)"
  have r': "b = (fst ?sc = 1)" "r' = r\<lparr>client := snd ?sc\<rparr>"
    using q by (auto simp: redis_FinishRun_def call_ok [OF inv_net [OF inv]])
  have v: "val (snd ?sc) = (val (client r))(?key := None)"
    by (simp add: finishRunScript_def Let_def del_val)
  have "fst ?sc = 1 \<longleftrightarrow> (case repo_view val r k of None \<Rightarrow> False | Some st \<Rightarrow> PendingRerun st)"
    using inv by (cases rule: repo_cases [where k = k])
      (simp_all add: finishRunScript_def Let_def hget_none hget_hash status_of_def field_def
        split: option.split)
  then show ?thesis
    using repo_update [OF inv v] r' by (simp add: repo_ok_def spec_finish_def)
qed

lemma redis_Adopt_spec:
  assumes inv: "redis_inv val z r" and clk: "redis_clock_ok z now" and q: "redis_Adopt R now k reason r = r'"
  shows "repo_view val r' = spec_adopt now k reason (repo_view val r) \<and> handle_view val r' = handle_view val r \<and> redis_inv val z r'"
proof -
  let ?key = "redis_key r k"
  let ?sc = "adoptScript R ?key reason (format_time z now) (ttlSeconds r) (client r)"
  have r': "r' = r\<lparr>client := snd ?sc\<rparr>"
    using q by (auto simp: redis_Adopt_def call_ok [OF inv_net [OF inv]] inv_zone [OF inv])
  note ttl = expire_val [OF ttl_pos [OF inv]]
  from inv show ?thesis
  proof (cases rule: repo_cases [where k = k])
    case idle
    have v: "val (snd ?sc) = (val (client r))(?key := Some (RHash (map_of (rev
        [(''state'', StateRunning), (''reason'', reason), (''since'', format_time z now), (''rerun'', '''')]))))"
      using idle by (simp add: adoptScript_def Let_def exists_val ttl hset_none)
    show ?thesis
      using repo_update [OF inv v] idle r' status_of_fresh [OF clk, of StateRunning reason]
      by (simp add: repo_ok_def spec_adopt_def)
  next
    case (entry h s)
    have v: "val (snd ?sc) = (val (client r))(?key := Some (RHash h))"
      using entry by (simp add: adoptScript_def Let_def exists_val ttl fun_upd_idem)
    show ?thesis
      using repo_update [OF inv v] entry r' by (simp add: repo_ok_def spec_adopt_def fun_upd_idem)
  qed
qed

lemma redis_Save_spec:
  assumes inv: "redis_inv val z r" and q: "redis_SaveRunHandle R k d r = r'"
  shows "handle_view val r' = (handle_view val r)(k \<mapsto> d) \<and> repo_view val r' = repo_view val r \<and> redis_inv val z r'"
proof -
  have "0 < ttl r" using inv by (simp add: redis_inv_def)
  then have v: "val (SET R (redis_handleKey r k) d (ttl r) (client r))
      = (val (client r))(redis_handleKey r k := Some (RStr d))" by (simp add: set_val)
  show ?thesis using handle_update [OF inv v] q
    by (auto simp: handle_ok_def redis_SaveRunHandle_def call_ok [OF inv_net [OF inv]])
qed

lemma redis_Delete_spec:
  assumes inv: "redis_inv val z r" and q: "redis_DeleteRunHandle R k r = r'"
  shows "handle_view val r' = (handle_view val r)(k := None) \<and> repo_view val r' = repo_view val r \<and> redis_inv val z r'"
  using handle_update [OF inv del_val] q
  by (auto simp: handle_ok_def redis_DeleteRunHandle_def call_ok [OF inv_net [OF inv]])

lemma hasPrefix_key: "hasPrefix key (keyPrefix r @ ''repo:'') \<longleftrightarrow> (\<exists>k. key = redis_key r k)"
  using append_take_drop_id [of "length (keyPrefix r @ ''repo:'')" key]
  by (auto simp: hasPrefix_def redis_key_def simp del: append_take_drop_id) (metis append.assoc)

lemma hasPrefix_handle: "hasPrefix key (keyPrefix r @ ''handle:'') \<longleftrightarrow> (\<exists>k. key = redis_handleKey r k)"
  using append_take_drop_id [of "length (keyPrefix r @ ''handle:'')" key]
  by (auto simp: hasPrefix_def redis_handleKey_def simp del: append_take_drop_id) (metis append.assoc)

lemma trim_key: "TrimPrefix (redis_key r k) (keyPrefix r @ ''repo:'') = k"
  and trim_handle: "TrimPrefix (redis_handleKey r k) (keyPrefix r @ ''handle:'') = k"
  by (simp_all add: TrimPrefix_def hasPrefix_def redis_key_def redis_handleKey_def)

lemma snapshot_loop_result:
  assumes "redis_inv val z r" and "\<forall>key \<in> set keys. \<exists>k. key = redis_key r k"
  shows "snapshot_loop R keys out r =
    (\<lambda>k. if redis_key r k \<in> set keys \<and> repo_view val r k \<noteq> None then repo_view val r k else out k, r)"
  using assms(2)
proof (induction keys arbitrary: out)
  case Nil
  then show ?case by simp
next
  case (Cons key keys)
  then obtain k where key: "key = redis_key r k" by auto
  have call: "redis_call (\<lambda>db. (HGETALL R key db, db)) r = (Some (HGETALL R key (client r)), r)"
    by (simp add: call_ok [OF inv_net [OF assms(1)]])
  from assms(1) show ?case
  proof (cases rule: repo_cases [where k = k])
    case idle
    then show ?thesis using Cons key call by (auto simp: hgetall_none fun_eq_iff)
  next
    case (entry h s)
    then have h: "map_of (HGETALL R key (client r)) = h" using key by (simp add: hgetall_hash)
    with entry have ne: "HGETALL R key (client r) \<noteq> []" by auto
    have "snapshot_loop R (key # keys) out r = snapshot_loop R keys (out(k \<mapsto> status_of h)) r"
      using call ne h trim_key [of r k] by (simp add: key)
    then show ?thesis using Cons entry key by (auto simp: fun_eq_iff)
  qed
qed

lemma load_loop_result:
  assumes "redis_inv val z r" and "\<forall>key \<in> set keys. \<exists>k. key = redis_handleKey r k"
  shows "load_loop R keys out r =
    (\<lambda>k. if redis_handleKey r k \<in> set keys \<and> handle_view val r k \<noteq> None then handle_view val r k else out k, r)"
  using assms(2)
proof (induction keys arbitrary: out)
  case Nil
  then show ?case by simp
next
  case (Cons key keys)
  then obtain k where key: "key = redis_handleKey r k" by auto
  have call: "redis_call (\<lambda>db. (GET R key db, db)) r = (Some (GET R key (client r)), r)"
    by (simp add: call_ok [OF inv_net [OF assms(1)]])
  have "handle_ok (val (client r) key)" using assms(1) key by (simp add: redis_inv_def)
  then consider "val (client r) key = None" | v where "val (client r) key = Some (RStr v)"
    by (auto simp: handle_ok_def split: option.splits rval.splits)
  then show ?case
  proof cases
    case 1
    then have "handle_view val r k = None" "GET R key (client r) = None"
      using key by (simp_all add: handle_view_def get_none)
    then show ?thesis using Cons key call by (auto simp: fun_eq_iff)
  next
    case (2 v)
    then have "handle_view val r k = Some v" "GET R key (client r) = Some v"
      using key by (simp_all add: handle_view_def get_str)
    then show ?thesis using Cons key call trim_handle [of r k] by (auto simp: fun_eq_iff)
  qed
qed

lemma glob_free_append: "glob_free (p @ q) \<longleftrightarrow> glob_free p \<and> glob_free q"
  by (auto simp: glob_free_def)

lemma redis_Snapshot_spec: assumes inv: "redis_inv val z r" shows "redis_Snapshot R r = (repo_view val r, r)"
proof -
  let ?keys = "SCAN R ((keyPrefix r @ ''repo:'') @ ''*'') (client r)"
  have "glob_free (keyPrefix r @ ''repo:'')"
    using inv by (simp add: redis_inv_def glob_free_append) (simp add: glob_free_def)
  then have keys: "set ?keys = {key. val (client r) key \<noteq> None \<and> (\<exists>k. key = redis_key r k)}"
    by (simp only: scan_keys hasPrefix_key)
  then have "snapshot_loop R ?keys Map.empty r = (\<lambda>k. if redis_key r k \<in> set ?keys
      \<and> repo_view val r k \<noteq> None then repo_view val r k else None, r)"
    by (intro snapshot_loop_result [OF inv]) auto
  moreover have "(if redis_key r k \<in> set ?keys \<and> repo_view val r k \<noteq> None then repo_view val r k else None) = repo_view val r k" for k
    using keys by (auto simp: repo_view_def)
  ultimately show ?thesis
    by (auto simp: redis_Snapshot_def call_ok [OF inv_net [OF inv]] simp del: not_None_eq)
qed

lemma redis_Load_spec: assumes inv: "redis_inv val z r" shows "redis_LoadRunHandles R r = (handle_view val r, r)"
proof -
  let ?keys = "SCAN R ((keyPrefix r @ ''handle:'') @ ''*'') (client r)"
  have "glob_free (keyPrefix r @ ''handle:'')"
    using inv by (simp add: redis_inv_def glob_free_append) (simp add: glob_free_def)
  then have keys: "set ?keys = {key. val (client r) key \<noteq> None \<and> (\<exists>k. key = redis_handleKey r k)}"
    by (simp only: scan_keys hasPrefix_handle)
  then have "load_loop R ?keys Map.empty r = (\<lambda>k. if redis_handleKey r k \<in> set ?keys
      \<and> handle_view val r k \<noteq> None then handle_view val r k else None, r)"
    by (intro load_loop_result [OF inv]) auto
  moreover have "(if redis_handleKey r k \<in> set ?keys \<and> handle_view val r k \<noteq> None then handle_view val r k else None) = handle_view val r k" for k
    using keys by (auto simp: handle_view_def)
  ultimately show ?thesis
    by (auto simp: redis_LoadRunHandles_def call_ok [OF inv_net [OF inv]] simp del: not_None_eq)
qed

end

text \<open>So the store meets the contract over every server with the documented behaviour.\<close>

sublocale redis_client \<subseteq> rs: store_contract "redis_ops R" "repo_view val" "handle_view val" "redis_inv val z" "redis_clock_ok z"
  by (unfold_locales; unfold redis_ops_def store_ops.simps;
      rule redis_Queue_spec redis_StartRun_spec redis_FinishRun_spec redis_Adopt_spec
        redis_Snapshot_spec redis_Save_spec redis_Load_spec redis_Delete_spec; assumption)

context redis_client
begin

lemma contract: "store_contract (redis_ops R) (repo_view val) (handle_view val) (redis_inv val z) (redis_clock_ok z)"
  by (rule rs.store_contract_axioms)

end

section \<open>Failures and expiry\<close>

text \<open>
  A call that fails is answered as \<open>Coalesced\<close>: the store never tells the dispatcher to
  start a run unless the server has just stored the queued marker.
\<close>

lemma redis_Queue_failed:
  "net r = n # ns \<Longrightarrow> n \<noteq> NetOk \<Longrightarrow> fst (redis_Queue R now k reason r) = Coalesced"
  by (cases n) (simp_all add: redis_Queue_def redis_call_def)

context redis_server
begin

lemma queued_means_stored:
  assumes q: "redis_Queue R now k reason r = (Queued, r')" and ttl: "0 < ttlSeconds r"
    and ok: "\<And>s. val (client r) (redis_key r k) \<noteq> Some (RStr s)"
      "\<And>h. val (client r) (redis_key r k) = Some (RHash h) \<Longrightarrow> h ''state'' \<noteq> None"
  shows "val (client r) (redis_key r k) = None"
    and "\<exists>h. val (client r') (redis_key r k) = Some (RHash h) \<and> h ''state'' = Some StateQueued"
proof -
  let ?sc = "queueScript R (redis_key r k) reason (format_time (zone r) now) (ttlSeconds r) (client r)"
  have "fst ?sc = 0 \<and> client r' = snd ?sc"
    using q by (auto simp: redis_Queue_def redis_call_def case_prod_beta
        split: list.splits net.splits option.splits if_splits)
  then have sc: "fst ?sc = 0" "client r' = snd ?sc" by auto
  show none: "val (client r) (redis_key r k) = None"
  proof (cases "val (client r) (redis_key r k)")
    case (Some v)
    with ok sc(1) show ?thesis
      by (cases v) (auto simp: queueScript_def Let_def hget_hash split: if_splits)
  qed
  show "\<exists>h. val (client r') (redis_key r k) = Some (RHash h) \<and> h ''state'' = Some StateQueued"
    using none ttl by (simp add: sc(2) queueScript_def hget_none hset_none expire_val)
qed

end

text \<open>
  Expiry: a key with a time to live \<open>left\<close> disappears once that much time has passed;
  \<open>EXPIRE\<close> restarts the time to live and \<open>HSET\<close> on an existing key keeps it.
  \<open>elapse n\<close> is the passage of \<open>n\<close> seconds.
\<close>

locale redis_expiry = redis_server +
  fixes left :: "'a \<Rightarrow> string \<Rightarrow> int option"
    and elapse :: "int \<Rightarrow> 'a \<Rightarrow> 'a"
  assumes expire_left: "val db k \<noteq> None \<Longrightarrow> 0 < n \<Longrightarrow> left (EXPIRE R k n db) k = Some n"
    and hset_left: "val db k = Some (RHash h) \<Longrightarrow> left (HSET R k fs db) k = left db k"
    and elapse_none: "left db k = Some t \<Longrightarrow> t \<le> n \<Longrightarrow> val (elapse n db) k = None"
    and elapse_val: "left db k = Some t \<Longrightarrow> 0 \<le> n \<Longrightarrow> n < t \<Longrightarrow> val (elapse n db) k = val db k"
    and elapse_left: "left db k = Some t \<Longrightarrow> 0 \<le> n \<Longrightarrow> n < t \<Longrightarrow> left (elapse n db) k = Some (t - n)"

text \<open>Requests for one repository, each some seconds after the one before.\<close>

fun queue_after :: "'r redis \<Rightarrow> (int \<Rightarrow> 'r \<Rightarrow> 'r) \<Rightarrow> string \<Rightarrow> (int \<times> go_time \<times> string) list
    \<Rightarrow> 'r redisStore \<Rightarrow> QueueResult list" where
  "queue_after R elapse k [] r = []"
| "queue_after R elapse k ((gap, now, reason) # qs) r =
     (let (q, r') = redis_Queue R now k reason (r\<lparr>client := elapse gap (client r)\<rparr>)
      in q # queue_after R elapse k qs r')"

context redis_expiry
begin

lemma queue_running:
  assumes "net r = []" "0 < ttlSeconds r"
    and "val (client r) (redis_key r k) = Some (RHash h)" "h ''state'' = Some StateRunning"
  shows "\<exists>db. redis_Queue R now k reason r = (Deferred, r\<lparr>client := db\<rparr>)
      \<and> (\<exists>h'. val db (redis_key r k) = Some (RHash h') \<and> h' ''state'' = Some StateRunning)
      \<and> left db (redis_key r k) = Some (ttlSeconds r)"
proof -
  let ?k = "redis_key r k"
  let ?e = "EXPIRE R ?k (ttlSeconds r) (client r)"
  have v: "val ?e ?k = Some (RHash h)" using assms by (simp add: expire_val)
  have "left (HSET R ?k [(''rerun'', ''1'')] ?e) ?k = Some (ttlSeconds r)"
    using assms v by (simp add: hset_left expire_left)
  moreover have "redis_Queue R now k reason r
      = (Deferred, r\<lparr>client := HSET R ?k [(''rerun'', ''1'')] ?e\<rparr>)"
    using assms by (simp add: redis_Queue_def redis_call_def queueScript_def hget_hash)
  ultimately show ?thesis
    using assms(4) v by (intro exI [of _ "HSET R ?k [(''rerun'', ''1'')] ?e"]) (auto simp: hset_hash)
qed

lemma running_lock_refreshed:
  assumes "net r = []" "0 < ttlSeconds r"
    and "val (client r) (redis_key r k) = Some (RHash h)" "h ''state'' = Some StateRunning"
    and "left (client r) (redis_key r k) = Some t" "ttlSeconds r \<le> t"
    and "\<forall>(gap, _) \<in> set qs. 0 \<le> gap \<and> gap < ttlSeconds r"
  shows "set (queue_after R elapse k qs r) \<subseteq> {Deferred}"
  using assms
proof (induction qs arbitrary: r h t)
  case Nil
  then show ?case by simp
next
  case (Cons q qs)
  obtain gap now reason where q: "q = (gap, now, reason)" by (cases q)
  let ?r = "r\<lparr>client := elapse gap (client r)\<rparr>"
  have gap: "0 \<le> gap" "gap < t" using Cons.prems q by auto
  have "val (client ?r) (redis_key ?r k) = Some (RHash h)"
    using Cons.prems gap by (simp add: elapse_val)
  then obtain db h' where step: "redis_Queue R now k reason ?r = (Deferred, ?r\<lparr>client := db\<rparr>)"
    and db: "val db (redis_key r k) = Some (RHash h')" "h' ''state'' = Some StateRunning"
      "left db (redis_key r k) = Some (ttlSeconds r)"
    using queue_running [of ?r k h now reason] Cons.prems(1,2,4) by auto
  have "set (queue_after R elapse k qs (r\<lparr>client := db\<rparr>)) \<subseteq> {Deferred}"
    using Cons.prems db by (intro Cons.IH [of _ h' "ttlSeconds r"]) auto
  then show ?case by (simp add: q step)
qed

end

section \<open>A reference server\<close>

text \<open>
  An executable database with the documented behaviour, on which the locales are
  interpreted: values with an optional time to live, and the list of keys ever written.
\<close>

record rdb =
  db_vals :: "string \<rightharpoonup> ((string \<times> string) list + string) \<times> int option"
  db_keys :: "string list"

definition db_get :: "rdb \<Rightarrow> string \<Rightarrow> (((string \<times> string) list + string) \<times> int option) option" where
  "db_get db k = (if k \<in> set (db_keys db) then db_vals db k else None)"

definition db_put :: "string \<Rightarrow> ((string \<times> string) list + string) \<times> int option \<Rightarrow> rdb \<Rightarrow> rdb" where
  "db_put k v db = \<lparr>db_vals = (db_vals db)(k \<mapsto> v), db_keys = k # db_keys db\<rparr>"

definition db_del :: "string \<Rightarrow> rdb \<Rightarrow> rdb" where
  "db_del k db = db\<lparr>db_vals := (db_vals db)(k := None)\<rparr>"

definition ref_redis :: "rdb redis" where
  "ref_redis = \<lparr>
     HGET = (\<lambda>k f db. case db_get db k of Some (Inl h, _) \<Rightarrow> map_of h f | _ \<Rightarrow> None),
     HSET = (\<lambda>k fs db. case db_get db k of
         Some (Inl h, t) \<Rightarrow> db_put k (Inl (rev fs @ h), t) db | _ \<Rightarrow> db_put k (Inl (rev fs), None) db),
     HGETALL = (\<lambda>k db. case db_get db k of Some (Inl h, _) \<Rightarrow> h | _ \<Rightarrow> []),
     EXISTS = (\<lambda>k db. if db_get db k = None then 0 else 1),
     EXPIRE = (\<lambda>k n db. case db_get db k of
         None \<Rightarrow> db | Some (v, _) \<Rightarrow> if 0 < n then db_put k (v, Some n) db else db_del k db),
     DEL = db_del,
     GET = (\<lambda>k db. case db_get db k of Some (Inr v, _) \<Rightarrow> Some v | _ \<Rightarrow> None),
     SET = (\<lambda>k v d db. db_put k (Inr v, if 0 < d then Some (max 1 (d div second)) else None) db),
     SCAN = (\<lambda>p db. filter (\<lambda>k. db_get db k \<noteq> None \<and> hasPrefix k (butlast p)) (db_keys db))\<rparr>"

definition ref_val :: "rdb \<Rightarrow> string \<Rightarrow> rval option" where
  "ref_val db k = map_option (\<lambda>(v, _). case v of Inl h \<Rightarrow> RHash (map_of h) | Inr s \<Rightarrow> RStr s) (db_get db k)"

definition ref_left :: "rdb \<Rightarrow> string \<Rightarrow> int option" where
  "ref_left db k = Option.bind (db_get db k) snd"

definition ref_elapse :: "int \<Rightarrow> rdb \<Rightarrow> rdb" where
  "ref_elapse n db = db\<lparr>db_vals := (\<lambda>k. case db_vals db k of
       Some (v, Some t) \<Rightarrow> if t \<le> n then None else Some (v, Some (t - n)) | x \<Rightarrow> x)\<rparr>"

lemma db_get_put: "db_get (db_put k v db) = (db_get db)(k \<mapsto> v)"
  and db_get_del: "db_get (db_del k db) = (db_get db)(k := None)"
  by (auto simp: db_get_def db_put_def db_del_def fun_eq_iff)

lemma db_get_elapse: "db_get (ref_elapse n db) k = (case db_get db k of
    Some (v, Some t) \<Rightarrow> if t \<le> n then None else Some (v, Some (t - n)) | x \<Rightarrow> x)"
  by (simp add: db_get_def ref_elapse_def split: option.split prod.split)

lemma set_ref_SCAN:
  "set (SCAN ref_redis (p @ ''*'') db) = {k. ref_val db k \<noteq> None \<and> hasPrefix k p}"
  by (auto simp: ref_redis_def ref_val_def db_get_def butlast_append split: if_splits)

lemma ref_val_put: "ref_val (db_put k (v, t) db) = (ref_val db)(k \<mapsto> (case v of Inl h \<Rightarrow> RHash (map_of h) | Inr s \<Rightarrow> RStr s))"
  and ref_val_del: "ref_val (db_del k db) = (ref_val db)(k := None)"
  by (simp_all add: ref_val_def db_get_put db_get_del fun_eq_iff)

lemma ref_val_None: "ref_val db k = None \<longleftrightarrow> db_get db k = None"
  by (simp add: ref_val_def)

lemma ref_val_hash: "ref_val db k = Some (RHash h) \<longleftrightarrow> (\<exists>al t. db_get db k = Some (Inl al, t) \<and> h = map_of al)"
  and ref_val_str: "ref_val db k = Some (RStr v) \<longleftrightarrow> (\<exists>t. db_get db k = Some (Inr v, t))"
  by (cases "db_get db k"; cases "fst (the (db_get db k))"; auto simp: ref_val_def)+

lemma ref_left_Some: "ref_left db k = Some t \<longleftrightarrow> (\<exists>v. db_get db k = Some (v, Some t))"
  by (auto simp: ref_left_def bind_eq_Some_conv)

lemma ref_EXPIRE_val: "0 < n \<Longrightarrow> ref_val (EXPIRE ref_redis k n db) = ref_val db"
  by (auto simp: ref_redis_def ref_val_def db_get_put fun_eq_iff split: option.split)

interpretation ref: redis_expiry ref_redis ref_val ref_left ref_elapse
proof unfold_locales
  fix db k fs h
  assume "ref_val db k = Some (RHash h)"
  then show "ref_val (HSET ref_redis k fs db) = (ref_val db)(k \<mapsto> RHash (h ++ map_of (rev fs)))"
    by (auto simp: ref_val_hash ref_redis_def ref_val_put)
next
  fix db k v
  assume "ref_val db k = Some (RStr v)"
  then show "GET ref_redis k db = Some v" by (auto simp: ref_val_str ref_redis_def)
next
  fix db k n t
  assume "ref_left db k = Some t" "0 \<le> n" "n < t"
  then show "ref_val (ref_elapse n db) k = ref_val db k"
    by (auto simp: ref_left_Some ref_val_def db_get_elapse)
next
  fix p db
  show "set (SCAN ref_redis (p @ ''*'') db) = {k. ref_val db k \<noteq> None \<and> hasPrefix k p}"
    by (rule set_ref_SCAN)
next
  fix n k db
  assume "0 < (n::int)"
  then show "ref_val (EXPIRE ref_redis k n db) = ref_val db" by (rule ref_EXPIRE_val)
qed (auto simp: ref_redis_def ref_val_None ref_val_hash ref_left_Some ref_left_def
    bind_eq_Some_conv ref_val_put ref_val_del db_get_put db_get_elapse)

interpretation refc: redis_client ref_redis ref_val 0
  by unfold_locales simp

section \<open>Properties\<close>

text \<open>
  C8. Over every Redis server with the documented command behaviour, the Redis store
  refines the abstract store specification: under its invariant (network up, TTL of at
  least a second, well-formed entries) each operation returns what the specification
  returns, changes the viewed statuses and handles as the specification does, and keeps
  the invariant.
\<close>

theorem redis_store_meets_contract:
  assumes "redis_server R val" and "\<bar>z\<bar> < 1440"
  shows "store_contract (redis_ops R) (repo_view val) (handle_view val) (redis_inv val z) (redis_clock_ok z)"
proof -
  have "redis_client R val z"
    using assms by (simp add: redis_client_def redis_client_axioms_def)
  then show ?thesis by (rule redis_client.contract)
qed

theorem redis_store_meets_contract_witness:
  "redis_server ref_redis ref_val \<and> store_contract (redis_ops ref_redis) (repo_view ref_val)
     (handle_view ref_val) (redis_inv ref_val 120) (redis_clock_ok 120)"
  using redis_store_meets_contract [OF ref.redis_server_axioms, of 120] ref.redis_server_axioms by simp

text \<open>
  C10. The Redis store fails closed. Whatever the network does, \<open>Queue\<close> answers \<open>Queued\<close>
  (the answer that starts a run) only when the repository had no entry and the server now
  holds a queued entry for it, so a lost call or a lost reply never starts a second run.
\<close>

theorem redis_queue_fails_closed:
  assumes "redis_server R val" and "redis_Queue R now k reason r = (Queued, r')" and "0 < ttlSeconds r"
    and "repo_ok (val (client r) (redis_key r k))"
  shows "(net r = [] \<or> hd (net r) = NetOk) \<and> val (client r) (redis_key r k) = None
    \<and> (\<exists>h. val (client r') (redis_key r k) = Some (RHash h) \<and> h ''state'' = Some StateQueued)"
proof -
  have "net r = [] \<or> hd (net r) = NetOk"
    using assms(2) redis_Queue_failed [of r _ _ R now k reason] by (cases "net r") auto
  moreover have "val (client r) (redis_key r k) \<noteq> Some (RStr s)" for s
    using assms(4) by (auto simp: repo_ok_def)
  moreover have "h ''state'' \<noteq> None" if "val (client r) (redis_key r k) = Some (RHash h)" for h
    using assms(4) that by (simp add: repo_ok_def)
  ultimately show ?thesis
    using redis_server.queued_means_stored [OF assms(1-3)] by blast
qed

definition sample_redis :: "net list \<Rightarrow> rdb redisStore" where
  "sample_redis ns = \<lparr>client = \<lparr>db_vals = Map.empty, db_keys = []\<rparr>, keyPrefix = ''p:'', ttl = 2 * hour,
     zone = 0, net = ns\<rparr>"

lemma sample_redis_queue: "fst (redis_Queue ref_redis 0 ''gl:a'' ''push'' (sample_redis [NetOk, NetLost])) = Queued"
  by code_simp

theorem redis_queue_fails_closed_witness:
  "\<exists>r' h. redis_Queue ref_redis 0 ''gl:a'' ''push'' (sample_redis [NetOk, NetLost]) = (Queued, r')
     \<and> ref_val (client r') (redis_key (sample_redis [NetOk, NetLost]) ''gl:a'') = Some (RHash h)
     \<and> h ''state'' = Some StateQueued"
proof -
  obtain r' where q: "redis_Queue ref_redis 0 ''gl:a'' ''push'' (sample_redis [NetOk, NetLost]) = (Queued, r')"
    using sample_redis_queue by (cases "redis_Queue ref_redis 0 ''gl:a'' ''push'' (sample_redis [NetOk, NetLost])") auto
  have "0 < ttlSeconds (sample_redis [NetOk, NetLost])"
    and "repo_ok (ref_val (client (sample_redis [NetOk, NetLost])) (redis_key (sample_redis [NetOk, NetLost]) ''gl:a''))"
    by (simp_all add: sample_redis_def ttlSeconds_def repo_ok_def ref_val_def db_get_def)
  then show ?thesis using redis_queue_fails_closed [OF ref.redis_server_axioms q] q by blast
qed

text \<open>
  A running entry that no process will ever finish (its server crashed and no executor
  adopted the run) does not expire while requests for the repository keep arriving less
  than the TTL apart: every request is answered \<open>Deferred\<close> and restarts the time to live.
  The self-healing the comments promise therefore needs a TTL without any event.
\<close>

theorem running_lock_kept_alive_by_requests:
  assumes "redis_expiry R val left elapse" and "net r = []" and "0 < ttlSeconds r"
    and "val (client r) (redis_key r k) = Some (RHash h)" and "h ''state'' = Some StateRunning"
    and "left (client r) (redis_key r k) = Some (ttlSeconds r)"
    and "\<forall>(gap, _) \<in> set qs. 0 \<le> gap \<and> gap < ttlSeconds r"
  shows "queue_after R elapse k qs r = replicate (length qs) Deferred"
proof -
  have "set (queue_after R elapse k qs r) \<subseteq> {Deferred}"
    using redis_expiry.running_lock_refreshed [OF assms(1-6) order_refl assms(7)] .
  moreover have "length (queue_after R elapse k qs r) = length qs"
    by (induction qs arbitrary: r) (auto simp: case_prod_beta)
  ultimately show ?thesis by (metis replicate_eqI singletonD subset_iff)
qed

definition stale_redis :: "rdb redisStore" where
  "stale_redis = (sample_redis [])\<lparr>client := \<lparr>db_vals = [''p:repo:gl:a'' \<mapsto>
     (Inl [(''state'', ''running''), (''reason'', ''push''), (''since'', ''''), (''rerun'', '''')], Some 7200)],
     db_keys = [''p:repo:gl:a'']\<rparr>\<rparr>"

theorem running_lock_kept_alive_by_requests_witness:
  "queue_after ref_redis ref_elapse ''gl:a'' [(3600, 0, ''cron''), (3600, 0, ''cron''), (7199, 0, ''cron'')]
     stale_redis = [Deferred, Deferred, Deferred]"
proof -
  have "queue_after ref_redis ref_elapse ''gl:a'' [(3600, 0, ''cron''), (3600, 0, ''cron''), (7199, 0, ''cron'')]
     stale_redis = replicate (length [(3600::int, 0::int, ''cron''), (3600, 0, ''cron''), (7199, 0, ''cron'')]) Deferred"
    by (rule running_lock_kept_alive_by_requests [OF ref.redis_expiry_axioms,
          where h = "map_of [(''state'', ''running''), (''reason'', ''push''), (''since'', ''''), (''rerun'', '''')]"])
      (simp_all add: stale_redis_def sample_redis_def ttlSeconds_def redis_key_def ref_val_def ref_left_def db_get_def)
  then show ?thesis by simp
qed

end
