(* ===== verification/Dispatcher.thy ===== *)
theory Dispatcher
  imports Router Metrics History GoTime Memory_Store Redis_Store
begin

text \<open>
  The dispatcher (\<open>src/internal/dispatch/dispatcher.go\<close>): debounce, mutual exclusion per
  repository, rerun coalescing, the global concurrency limit and the run timeout. The
  goroutines are a list of processes; each access to shared state (the store, the router
  pointer, the semaphore channel, the metrics, the history, the clock) is one step of one
  process, and a schedule is any sequence of such steps. What an executor does between its
  start and its return is left to the environment: it returns any error, or none, at any
  time.
\<close>

section \<open>State\<close>

record options =
  opt_Debounce :: duration
  opt_RunTimeout :: duration
  opt_MaxConcurrent :: int

text \<open>
  The program points of the goroutines. A Boolean says whether the goroutine holds a
  semaphore token (its deferred \<open><-d.sem\<close> is still to come): adopted runs hold none.

  \<^item> \<open>EnqCall\<close>: a caller inside \<open>Enqueue\<close>, between the routing and the \<open>Queue\<close> call;
  \<^item> \<open>Spawned\<close> \dots \<open>Executing\<close>: the program points of \<open>run\<close>;
  \<^item> \<open>AdoptSpawned\<close>, \<open>AdoptWaiting\<close>: the goroutine of \<open>Adopt\<close>;
  \<^item> \<open>Finishing\<close>, \<open>Recording\<close>, \<open>Releasing\<close>: inside \<open>finish\<close>, before the metric, before the
    history entry and before the \<open>FinishRun\<close> call;
  \<^item> \<open>Reenqueue\<close>, \<open>ReCall\<close>: the \<open>Enqueue\<close> of the deferred rerun, before and after the routing;
  \<^item> \<open>Exiting\<close>: the deferred calls.
\<close>

datatype proc =
    EnqCall Event "executor option"
  | Spawned Event "executor option"
  | Debouncing Event "executor option" go_time
  | Acquiring Event "executor option"
  | Starting Event "executor option"
  | Launching Event "executor option"
  | Executing Event "executor option" go_time
  | AdoptSpawned Repo string
  | AdoptWaiting Repo string go_time
  | Finishing Repo string string go_time "error option" bool
  | Recording Repo string string go_time "error option" string bool
  | Releasing Repo bool
  | Reenqueue Repo bool
  | ReCall Event "executor option" bool
  | Exiting bool
  | Done

text \<open>
  The dispatcher with its goroutines and the clock. A nil \<open>Metrics\<close> or \<open>History\<close> option is
  replaced by a no-op: \<^const>\<open>None\<close> here.
\<close>

record 's dispatcher =
  d_store :: 's
  d_router :: Router
  d_opts :: options
  d_sem :: nat
  d_cancelled :: bool
  d_procs :: "proc list"
  d_now :: go_time
  d_metrics :: "Metrics option"
  d_hist :: "history option"

text \<open>\<open>make(chan struct{}, n)\<close> panics for a negative \<open>n\<close>.\<close>

definition NewDispatcher ::
  "'s \<Rightarrow> Router \<Rightarrow> options \<Rightarrow> Metrics option \<Rightarrow> history option \<Rightarrow> go_time \<Rightarrow> 's dispatcher option" where
  "NewDispatcher st r opts m h now =
     (if opt_MaxConcurrent opts < 0 then None
      else Some \<lparr>d_store = st, d_router = r, d_opts = opts, d_sem = 0, d_cancelled = False,
                 d_procs = [], d_now = now, d_metrics = m, d_hist = h\<rparr>)"

definition SetRouter :: "Router \<Rightarrow> 's dispatcher \<Rightarrow> 's dispatcher" where
  "SetRouter r d = d\<lparr>d_router := r\<rparr>"

section \<open>Enqueue\<close>

text \<open>The first half of \<open>Enqueue\<close>: load the router and route; a disabled repository ends the call.\<close>

definition Enqueue_route :: "(string \<Rightarrow> string \<Rightarrow> bool option) \<Rightarrow> Event \<Rightarrow> 's dispatcher \<Rightarrow> Route" where
  "Enqueue_route match ev d = Route_of match (d_router d) (repo_FullName (ev_Repo ev))"

text \<open>The second half: the store decides whether a new goroutine runs.\<close>

definition Enqueue_queue ::
  "'s store_ops \<Rightarrow> Event \<Rightarrow> executor option \<Rightarrow> 's dispatcher \<Rightarrow> proc list \<times> 's dispatcher" where
  "Enqueue_queue ops ev ex d =
     (case Queue ops (d_now d) (Key (ev_Repo ev)) (ev_Reason ev) (d_store d) of
        (Queued, s) \<Rightarrow> ([Spawned ev ex], d\<lparr>d_store := s\<rparr>)
      | (Coalesced, s) \<Rightarrow> ([], d\<lparr>d_store := s\<rparr>)
      | (Deferred, s) \<Rightarrow> ([], d\<lparr>d_store := s\<rparr>))"

text \<open>A call of \<open>Enqueue\<close> from outside the dispatcher's goroutines.\<close>

definition Enqueue_call :: "(string \<Rightarrow> string \<Rightarrow> bool option) \<Rightarrow> Event \<Rightarrow> 's dispatcher \<Rightarrow> 's dispatcher" where
  "Enqueue_call match ev d =
     (let route = Enqueue_route match ev d
      in d\<lparr>d_procs := d_procs d @ [if route_Disabled route then Done else EnqCall ev (route_Executor route)]\<rparr>)"

section \<open>Adopt\<close>

definition Adopt_run :: "'s store_ops \<Rightarrow> Repo \<Rightarrow> string \<Rightarrow> 's dispatcher \<Rightarrow> 's dispatcher" where
  "Adopt_run ops repo executorName d =
     d\<lparr>d_store := Adopt ops (d_now d) (Key repo) ReasonRerun (d_store d),
       d_procs := d_procs d @ [AdoptSpawned repo executorName]\<rparr>"

section \<open>run\<close>

text \<open>
  What the scheduler and the environment decide at a step: the goroutine goes on, takes
  the \<open>baseCtx.Done()\<close> branch of its \<open>select\<close>, or its executor returns.
\<close>

datatype choice = Proceed | Abort | Return "error option"

definition store_FinishRun :: "'s store_ops \<Rightarrow> Repo \<Rightarrow> 's dispatcher \<Rightarrow> bool \<times> 's dispatcher" where
  "store_FinishRun ops repo d =
     (case FinishRun ops (Key repo) (d_store d) of (rerun, s) \<Rightarrow> (rerun, d\<lparr>d_store := s\<rparr>))"

definition run_abort ::
  "'s store_ops \<Rightarrow> Event \<Rightarrow> 's dispatcher \<Rightarrow> (proc \<times> proc list \<times> 's dispatcher) option" where
  "run_abort ops ev d =
     (if d_cancelled d then Some (Done, [], snd (store_FinishRun ops (ev_Repo ev) d)) else None)"

definition run_debounce ::
  "'s store_ops \<Rightarrow> choice \<Rightarrow> Event \<Rightarrow> executor option \<Rightarrow> go_time \<Rightarrow> 's dispatcher \<Rightarrow>
   (proc \<times> proc list \<times> 's dispatcher) option" where
  "run_debounce ops c ev ex deadline d =
     (case c of
        Proceed \<Rightarrow> if deadline \<le> d_now d then Some (Acquiring ev ex, [], d) else None
      | Abort \<Rightarrow> run_abort ops ev d
      | Return e \<Rightarrow> None)"

definition run_acquire ::
  "'s store_ops \<Rightarrow> choice \<Rightarrow> Event \<Rightarrow> executor option \<Rightarrow> 's dispatcher \<Rightarrow>
   (proc \<times> proc list \<times> 's dispatcher) option" where
  "run_acquire ops c ev ex d =
     (case c of
        Proceed \<Rightarrow> if int (d_sem d) < opt_MaxConcurrent (d_opts d)
                   then Some (Starting ev ex, [], d\<lparr>d_sem := Suc (d_sem d)\<rparr>) else None
      | Abort \<Rightarrow> run_abort ops ev d
      | Return e \<Rightarrow> None)"

definition run_start :: "'s store_ops \<Rightarrow> Event \<Rightarrow> executor option \<Rightarrow> 's dispatcher \<Rightarrow> proc \<times> 's dispatcher" where
  "run_start ops ev ex d =
     (Launching ev ex, d\<lparr>d_store := StartRun ops (d_now d) (Key (ev_Repo ev)) (d_store d)\<rparr>)"

text \<open>\<open>exec.Name()\<close> on a nil executor would panic: no step.\<close>

definition run_launch ::
  "Event \<Rightarrow> executor option \<Rightarrow> 's dispatcher \<Rightarrow> (proc \<times> proc list \<times> 's dispatcher) option" where
  "run_launch ev ex d =
     (case ex of
        None \<Rightarrow> None
      | Some e \<Rightarrow> Some (Executing ev ex (d_now d), [],
                        d\<lparr>d_metrics := map_option (RunStarted (ex_Name e)) (d_metrics d)\<rparr>))"

definition run_return ::
  "choice \<Rightarrow> Event \<Rightarrow> executor option \<Rightarrow> go_time \<Rightarrow> 's dispatcher \<Rightarrow>
   (proc \<times> proc list \<times> 's dispatcher) option" where
  "run_return c ev ex start d =
     (case (c, ex) of
        (Return err, Some e) \<Rightarrow> Some (Finishing (ev_Repo ev) (ev_Reason ev) (ex_Name e) start err True, [], d)
      | _ \<Rightarrow> None)"

definition adopt_return ::
  "choice \<Rightarrow> Repo \<Rightarrow> string \<Rightarrow> go_time \<Rightarrow> 's dispatcher \<Rightarrow> (proc \<times> proc list \<times> 's dispatcher) option" where
  "adopt_return c repo name start d =
     (case c of
        Return err \<Rightarrow> Some (Finishing repo ''adopted'' name start err False, [], d)
      | _ \<Rightarrow> None)"

section \<open>finish\<close>

definition finish_result :: "error option \<Rightarrow> string" where
  "finish_result err =
     (case err of
        None \<Rightarrow> ''success''
      | Some e \<Rightarrow> if errors_Is e DeadlineExceeded then ''timeout'' else ''failure'')"

definition finish_errMsg :: "error option \<Rightarrow> string" where
  "finish_errMsg err =
     (case err of
        None \<Rightarrow> ''''
      | Some e \<Rightarrow> let errMsg = err_Error e in if length errMsg > 500 then take 500 errMsg else errMsg)"

definition finish_metrics ::
  "string \<Rightarrow> go_time \<Rightarrow> error option \<Rightarrow> 's dispatcher \<Rightarrow> string \<times> 's dispatcher" where
  "finish_metrics name start err d =
     (let result = finish_result err
      in (result, d\<lparr>d_metrics := map_option (RunFinished name result (d_now d - start)) (d_metrics d)\<rparr>))"

definition finish_entry ::
  "Repo \<Rightarrow> string \<Rightarrow> string \<Rightarrow> go_time \<Rightarrow> error option \<Rightarrow> string \<Rightarrow> go_time \<Rightarrow> entry" where
  "finish_entry repo reason name start err result now =
     \<lparr>entry_repo = Key repo, entry_reason = reason, entry_executor = name, entry_result = result,
      entry_error = finish_errMsg err, entry_start = start,
      entry_duration = dur_String (dur_Round millisecond (now - start))\<rparr>"

text \<open>A panic of \<open>Record\<close> is \<^const>\<open>None\<close>.\<close>

definition finish_record ::
  "Repo \<Rightarrow> string \<Rightarrow> string \<Rightarrow> go_time \<Rightarrow> error option \<Rightarrow> string \<Rightarrow> 's dispatcher \<Rightarrow> 's dispatcher option" where
  "finish_record repo reason name start err result d =
     (case d_hist d of
        None \<Rightarrow> Some d
      | Some h \<Rightarrow> (case Record h (finish_entry repo reason name start err result (d_now d)) of
                     None \<Rightarrow> None
                   | Some h' \<Rightarrow> Some (d\<lparr>d_hist := Some h'\<rparr>)))"

definition finish_release :: "'s store_ops \<Rightarrow> Repo \<Rightarrow> bool \<Rightarrow> 's dispatcher \<Rightarrow> proc \<times> 's dispatcher" where
  "finish_release ops repo tok d =
     (case store_FinishRun ops repo d of
        (rerun, d') \<Rightarrow> (if rerun then Reenqueue repo tok else Exiting tok, d'))"

definition finish_reroute ::
  "(string \<Rightarrow> string \<Rightarrow> bool option) \<Rightarrow> Repo \<Rightarrow> bool \<Rightarrow> 's dispatcher \<Rightarrow> proc" where
  "finish_reroute match repo tok d =
     (let ev = \<lparr>ev_Repo = repo, ev_Reason = ReasonRerun\<rparr>;
          route = Enqueue_route match ev d
      in if route_Disabled route then Exiting tok else ReCall ev (route_Executor route) tok)"

definition run_exit :: "bool \<Rightarrow> 's dispatcher \<Rightarrow> 's dispatcher" where
  "run_exit tok d = (if tok then d\<lparr>d_sem := d_sem d - 1\<rparr> else d)"

section \<open>One step of a goroutine\<close>

text \<open>
  The step of a goroutine at its program point: its next point, the goroutines it starts,
  and the dispatcher afterwards; \<^const>\<open>None\<close> when it cannot go on (it is blocked,
  finished, or would panic).
\<close>

fun go_step ::
  "'s store_ops \<Rightarrow> (string \<Rightarrow> string \<Rightarrow> bool option) \<Rightarrow> choice \<Rightarrow> proc \<Rightarrow> 's dispatcher \<Rightarrow>
   (proc \<times> proc list \<times> 's dispatcher) option" where
  "go_step ops match Proceed (EnqCall ev ex) d =
     (case Enqueue_queue ops ev ex d of (new, d') \<Rightarrow> Some (Done, new, d'))"
| "go_step ops match Proceed (Spawned ev ex) d =
     Some (Debouncing ev ex (d_now d + opt_Debounce (d_opts d)), [], d)"
| "go_step ops match c (Debouncing ev ex deadline) d = run_debounce ops c ev ex deadline d"
| "go_step ops match c (Acquiring ev ex) d = run_acquire ops c ev ex d"
| "go_step ops match Proceed (Starting ev ex) d =
     (case run_start ops ev ex d of (p, d') \<Rightarrow> Some (p, [], d'))"
| "go_step ops match Proceed (Launching ev ex) d = run_launch ev ex d"
| "go_step ops match c (Executing ev ex start) d = run_return c ev ex start d"
| "go_step ops match Proceed (AdoptSpawned repo name) d = Some (AdoptWaiting repo name (d_now d), [], d)"
| "go_step ops match c (AdoptWaiting repo name start) d = adopt_return c repo name start d"
| "go_step ops match Proceed (Finishing repo reason name start err tok) d =
     (case finish_metrics name start err d of
        (result, d') \<Rightarrow> Some (Recording repo reason name start err result tok, [], d'))"
| "go_step ops match Proceed (Recording repo reason name start err result tok) d =
     (case finish_record repo reason name start err result d of
        None \<Rightarrow> None
      | Some d' \<Rightarrow> Some (Releasing repo tok, [], d'))"
| "go_step ops match Proceed (Releasing repo tok) d =
     (case finish_release ops repo tok d of (p, d') \<Rightarrow> Some (p, [], d'))"
| "go_step ops match Proceed (Reenqueue repo tok) d = Some (finish_reroute match repo tok d, [], d)"
| "go_step ops match Proceed (ReCall ev ex tok) d =
     (case Enqueue_queue ops ev ex d of (new, d') \<Rightarrow> Some (Exiting tok, new, d'))"
| "go_step ops match Proceed (Exiting tok) d = Some (Done, [], run_exit tok d)"
| "go_step ops match c p d = None"

section \<open>Schedules\<close>

datatype label =
    LEnqueue Event
  | LAdopt Repo string
  | LSetRouter Router
  | LCancel
  | LTick duration
  | LGo nat choice

inductive dstep ::
  "'s store_ops \<Rightarrow> (string \<Rightarrow> string \<Rightarrow> bool option) \<Rightarrow> 's dispatcher \<Rightarrow> label \<Rightarrow> 's dispatcher \<Rightarrow> bool"
  for ops match where
  enqueue: "dstep ops match d (LEnqueue ev) (Enqueue_call match ev d)"
| adopt: "dstep ops match d (LAdopt repo name) (Adopt_run ops repo name d)"
| set_router: "dstep ops match d (LSetRouter r) (SetRouter r d)"
| cancel: "dstep ops match d LCancel (d\<lparr>d_cancelled := True\<rparr>)"
| tick: "0 \<le> dt \<Longrightarrow> dstep ops match d (LTick dt) (d\<lparr>d_now := d_now d + dt\<rparr>)"
| go: "i < length (d_procs d) \<Longrightarrow> go_step ops match c (d_procs d ! i) d = Some (p, new, d') \<Longrightarrow>
    dstep ops match d (LGo i c) (d'\<lparr>d_procs := (d_procs d)[i := p] @ new\<rparr>)"

inductive_simps dstep_go [simp]: "dstep ops match d (LGo i c) d'"
inductive_cases dstep_cases: "dstep ops match d l d'"

section \<open>Locks\<close>

text \<open>
  The abstraction behind mutual exclusion: a goroutine owns the lock of a repository from the
  moment the store answered \<open>Queued\<close> (or the run was adopted) up to its \<open>FinishRun\<close>.
\<close>

datatype lock = Free | LQueued string | LRunning string

fun lock_of :: "proc \<Rightarrow> lock" where
  "lock_of (Spawned ev ex) = LQueued (Key (ev_Repo ev))"
| "lock_of (Debouncing ev ex t) = LQueued (Key (ev_Repo ev))"
| "lock_of (Acquiring ev ex) = LQueued (Key (ev_Repo ev))"
| "lock_of (Starting ev ex) = LQueued (Key (ev_Repo ev))"
| "lock_of (Launching ev ex) = LRunning (Key (ev_Repo ev))"
| "lock_of (Executing ev ex t) = LRunning (Key (ev_Repo ev))"
| "lock_of (AdoptSpawned repo name) = LRunning (Key repo)"
| "lock_of (AdoptWaiting repo name t) = LRunning (Key repo)"
| "lock_of (Finishing repo reason name t err tok) = LRunning (Key repo)"
| "lock_of (Recording repo reason name t err result tok) = LRunning (Key repo)"
| "lock_of (Releasing repo tok) = LRunning (Key repo)"
| "lock_of p = Free"

fun lock_on :: "string \<Rightarrow> lock \<Rightarrow> bool" where
  "lock_on k Free = False"
| "lock_on k (LQueued k') = (k = k')"
| "lock_on k (LRunning k') = (k = k')"

fun lock_ok :: "statuses \<Rightarrow> lock \<Rightarrow> bool" where
  "lock_ok v Free = True"
| "lock_ok v (LQueued k) = (\<exists>st. v k = Some st \<and> State st = StateQueued \<and> \<not> PendingRerun st)"
| "lock_ok v (LRunning k) = (\<exists>st. v k = Some st \<and> State st = StateRunning)"

definition lock_inv :: "statuses \<Rightarrow> string set \<Rightarrow> lock list \<Rightarrow> bool" where
  "lock_inv v stale ls \<longleftrightarrow> (\<forall>k. countP (lock_on k) ls \<le> 1) \<and> (\<forall>j < length ls. lock_ok v (ls ! j))
     \<and> (\<forall>k. v k \<noteq> None \<longrightarrow> k \<in> stale \<or> 0 < countP (lock_on k) ls)"

lemma lock_ok_other:
  "lock_ok v l \<Longrightarrow> \<not> lock_on k l \<Longrightarrow> (\<And>k'. k' \<noteq> k \<Longrightarrow> v' k' = v k') \<Longrightarrow> lock_ok v' l"
  by (cases l) auto

lemma lock_on_unique: "lock_on k l \<Longrightarrow> lock_on k' l \<Longrightarrow> k = k'"
  by (cases l) auto

text \<open>An unlocked key takes a lock: \<open>Queued\<close> or an adoption.\<close>

lemma lock_inv_take:
  assumes inv: "lock_inv v stale ls" and free: "countP (lock_on k) ls = 0"
    and l: "lock_on k l" "lock_ok (v(k \<mapsto> st)) l"
  shows "lock_inv (v(k \<mapsto> st)) stale (ls @ [l])"
proof -
  have one: "countP (lock_on k') (ls @ [l]) \<le> 1" for k'
    using inv free l(1) lock_on_unique [OF l(1), of k'] by (auto simp: lock_inv_def count_simps)
  have "lock_ok (v(k \<mapsto> st)) (ls ! j)" if "j < length ls" for j
    using inv free that lock_ok_other [of v "ls ! j" k "v(k \<mapsto> st)"]
    by (auto simp: lock_inv_def countP_zero_iff)
  then have "lock_ok (v(k \<mapsto> st)) ((ls @ [l]) ! j)" if "j < length (ls @ [l])" for j
    using that l by (cases "j = length ls") (auto simp: nth_append)
  with inv l one show ?thesis by (auto simp: lock_inv_def count_simps)
qed

text \<open>The owner of a key gives its lock back.\<close>

lemma lock_inv_drop:
  assumes inv: "lock_inv v stale ls" and i: "i < length ls" "lock_on k (ls ! i)"
  shows "lock_inv (v(k := None)) stale (ls[i := Free])"
proof -
  have cnt: "countP (lock_on k') (ls[i := Free]) + (if lock_on k' (ls ! i) then 1 else 0)
      = countP (lock_on k') ls" for k'
    using countP_update [OF i(1), of "lock_on k'" Free] by simp
  have one: "countP (lock_on k) ls \<le> 1" using inv by (simp add: lock_inv_def)
  have "lock_ok (v(k := None)) (ls[i := Free] ! j)" if j: "j < length ls" for j
  proof (cases "j = i")
    case False
    then have "\<not> lock_on k (ls ! j)" using countP_le_one_unique [OF one j i(1)] i(2) by blast
    with inv j False show ?thesis
      using lock_ok_other [of v "ls ! j" k "v(k := None)"] by (simp add: lock_inv_def)
  qed (use i in simp)
  moreover have "countP (lock_on k') (ls[i := Free]) \<le> 1" for k'
  proof -
    have "countP (lock_on k') ls \<le> 1" using inv by (simp add: lock_inv_def)
    with cnt [of k'] show ?thesis by linarith
  qed
  moreover have "k' \<in> stale \<or> 0 < countP (lock_on k') (ls[i := Free])"
    if "(v(k := None)) k' \<noteq> None" for k'
  proof -
    have "k' \<noteq> k" "v k' \<noteq> None" using that by (auto split: if_splits)
    moreover from \<open>k' \<noteq> k\<close> have "\<not> lock_on k' (ls ! i)" using lock_on_unique [OF i(2)] by blast
    ultimately show ?thesis using inv cnt [of k'] by (auto simp: lock_inv_def)
  qed
  ultimately show ?thesis by (simp add: lock_inv_def)
qed

text \<open>The owner of a key moves on while the entry of the key changes.\<close>

lemma lock_inv_move:
  assumes inv: "lock_inv v stale ls" and i: "i < length ls" "lock_on k (ls ! i)"
    and l: "lock_on k l" "lock_ok (v(k \<mapsto> st)) l"
  shows "lock_inv (v(k \<mapsto> st)) stale (ls[i := l])"
proof -
  have same: "countP (lock_on k') (ls[i := l]) = countP (lock_on k') ls" for k'
    using i l lock_on_unique by (intro countP_update_same) blast+
  have one: "countP (lock_on k) ls \<le> 1" using inv by (simp add: lock_inv_def)
  have "lock_ok (v(k \<mapsto> st)) (ls[i := l] ! j)" if j: "j < length ls" for j
  proof (cases "j = i")
    case False
    then have "\<not> lock_on k (ls ! j)" using countP_le_one_unique [OF one j i(1)] i(2) by blast
    with inv j False show ?thesis
      using lock_ok_other [of v "ls ! j" k "v(k \<mapsto> st)"] by (simp add: lock_inv_def)
  qed (use i l in simp)
  moreover have "0 < countP (lock_on k) ls" using countP_pos [of i ls "lock_on k"] i by blast
  ultimately show ?thesis using inv same by (auto simp: lock_inv_def)
qed

text \<open>A request for a running key sets the flag of its entry.\<close>

lemma lock_inv_flag:
  assumes inv: "lock_inv v stale ls" and st: "v k = Some st" "State st = StateRunning"
  shows "lock_inv (v(k \<mapsto> st\<lparr>PendingRerun := True\<rparr>)) stale ls"
proof -
  have "lock_ok (v(k \<mapsto> st\<lparr>PendingRerun := True\<rparr>)) (ls ! j)" if "j < length ls" for j
    using inv that st by (cases "ls ! j") (auto simp: lock_inv_def dest!: spec [of _ j])
  with inv st show ?thesis by (auto simp: lock_inv_def)
qed

section \<open>Tokens and executors\<close>

fun holds_token :: "proc \<Rightarrow> bool" where
  "holds_token (Starting ev ex) = True"
| "holds_token (Launching ev ex) = True"
| "holds_token (Executing ev ex t) = True"
| "holds_token (Finishing repo reason name t err tok) = tok"
| "holds_token (Recording repo reason name t err result tok) = tok"
| "holds_token (Releasing repo tok) = tok"
| "holds_token (Reenqueue repo tok) = tok"
| "holds_token (ReCall ev ex tok) = tok"
| "holds_token (Exiting tok) = tok"
| "holds_token p = False"

fun has_executor :: "proc \<Rightarrow> bool" where
  "has_executor (EnqCall ev ex) = (ex \<noteq> None)"
| "has_executor (Spawned ev ex) = (ex \<noteq> None)"
| "has_executor (Debouncing ev ex t) = (ex \<noteq> None)"
| "has_executor (Acquiring ev ex) = (ex \<noteq> None)"
| "has_executor (Starting ev ex) = (ex \<noteq> None)"
| "has_executor (Launching ev ex) = (ex \<noteq> None)"
| "has_executor (Executing ev ex t) = (ex \<noteq> None)"
| "has_executor (ReCall ev ex tok) = (ex \<noteq> None)"
| "has_executor p = True"

definition token_inv :: "'s dispatcher \<Rightarrow> bool" where
  "token_inv d \<longleftrightarrow> d_sem d = countP holds_token (d_procs d) \<and> int (d_sem d) \<le> opt_MaxConcurrent (d_opts d)"

definition safe_inv :: "'s dispatcher \<Rightarrow> bool" where
  "safe_inv d \<longleftrightarrow> router_wf (d_router d) \<and> (\<forall>p \<in> set (d_procs d). has_executor p)
     \<and> (\<forall>h. d_hist d = Some h \<longrightarrow> history_inv h)"

text \<open>The event of a goroutine that is about to call \<open>Queue\<close>.\<close>

fun enq_event :: "proc \<Rightarrow> Event option" where
  "enq_event (EnqCall ev ex) = Some ev"
| "enq_event (ReCall ev ex tok) = Some ev"
| "enq_event p = None"

lemmas go_step_defs = Enqueue_queue_def store_FinishRun_def run_abort_def run_debounce_def
  run_acquire_def run_start_def run_launch_def run_return_def adopt_return_def finish_metrics_def
  finish_record_def finish_release_def finish_reroute_def run_exit_def Let_def

lemmas go_step_splits = option.splits if_splits prod.splits QueueResult.splits choice.splits

text \<open>Which fields a step of a goroutine leaves alone.\<close>

lemma go_step_frame:
  "go_step ops match c p d = Some (p', new, d') \<Longrightarrow>
     d_opts d' = d_opts d \<and> d_now d' = d_now d \<and> d_router d' = d_router d \<and> d_cancelled d' = d_cancelled d"
  by (cases p; cases c) (auto simp: go_step_defs split: go_step_splits)

lemma go_step_new:
  "go_step ops match c p d = Some (p', new, d') \<Longrightarrow> new = [] \<or> (\<exists>ev ex. new = [Spawned ev ex])"
  by (cases p; cases c) (auto simp: go_step_defs split: go_step_splits)

lemma go_step_token:
  "go_step ops match c p d = Some (p', new, d') \<Longrightarrow> (holds_token p \<Longrightarrow> 0 < d_sem d) \<Longrightarrow>
     d_sem d' + (if holds_token p then 1 else 0) = d_sem d + (if holds_token p' then 1 else 0)
     \<and> (int (d_sem d) \<le> opt_MaxConcurrent (d_opts d) \<longrightarrow> int (d_sem d') \<le> opt_MaxConcurrent (d_opts d))"
  by (cases p; cases c) (auto simp: go_step_defs split: go_step_splits)

lemma go_step_safe:
  "go_step ops match c p d = Some (p', new, d') \<Longrightarrow> has_executor p \<Longrightarrow> router_wf (d_router d) \<Longrightarrow>
   (\<forall>h. d_hist d = Some h \<longrightarrow> history_inv h) \<Longrightarrow>
     has_executor p' \<and> (\<forall>q \<in> set new. has_executor q) \<and> (\<forall>h. d_hist d' = Some h \<longrightarrow> history_inv h)"
  by (cases p; cases c)
    (auto simp: go_step_defs Enqueue_route_def Route_wf split: go_step_splits intro: history_inv_Record)

lemma token_inv_go:
  assumes inv: "token_inv d" and i: "i < length (d_procs d)"
    and go: "go_step ops match c (d_procs d ! i) d = Some (p, new, d')"
  shows "token_inv (d'\<lparr>d_procs := (d_procs d)[i := p] @ new\<rparr>)"
proof -
  have "holds_token (d_procs d ! i) \<Longrightarrow> 0 < d_sem d"
    using inv countP_pos [OF i] by (simp add: token_inv_def)
  note tok = go_step_token [OF go this]
  have "countP holds_token new = 0" using go_step_new [OF go] by (auto simp: count_simps)
  with tok countP_update [OF i, of holds_token p] inv go_step_frame [OF go] show ?thesis
    by (auto simp: token_inv_def count_simps split: if_splits)
qed

lemma safe_inv_go:
  assumes inv: "safe_inv d" and i: "i < length (d_procs d)"
    and go: "go_step ops match c (d_procs d ! i) d = Some (p, new, d')"
  shows "safe_inv (d'\<lparr>d_procs := (d_procs d)[i := p] @ new\<rparr>)"
proof -
  have "has_executor (d_procs d ! i)" using inv i by (simp add: safe_inv_def)
  from go_step_safe [OF go this] inv have
    "has_executor p \<and> (\<forall>q \<in> set new. has_executor q) \<and> (\<forall>h. d_hist d' = Some h \<longrightarrow> history_inv h)"
    by (simp add: safe_inv_def)
  with inv go_step_frame [OF go] set_update_subset_insert [of "d_procs d" i p] show ?thesis
    by (auto simp: safe_inv_def)
qed

section \<open>Reachable states\<close>

text \<open>
  The environment: routers come from \<open>NewRouter\<close>, the clock stays in the range the store
  can print, and a run is adopted when no goroutine of this process works on its repository
  and the store knows the repository as running or not at all (\<open>adopt_ok\<close>).
\<close>

definition adopt_ok :: "'s store_ops \<Rightarrow> Repo \<Rightarrow> 's dispatcher \<Rightarrow> bool" where
  "adopt_ok ops repo d \<longleftrightarrow>
     list_all (\<lambda>p. \<not> lock_on (Key repo) (lock_of p)) (d_procs d) \<and>
     (case fst (Snapshot ops (d_store d)) (Key repo) of
        None \<Rightarrow> True
      | Some st \<Rightarrow> State st = StateRunning)"

fun env_ok :: "'s store_ops \<Rightarrow> (go_time \<Rightarrow> bool) \<Rightarrow> label \<Rightarrow> 's dispatcher \<Rightarrow> bool" where
  "env_ok ops clock_ok (LAdopt repo name) d = adopt_ok ops repo d"
| "env_ok ops clock_ok (LSetRouter r) d = (\<exists>rs executors. NewRouter rs executors = Inr r)"
| "env_ok ops clock_ok (LTick dt) d = clock_ok (d_now d + dt)"
| "env_ok ops clock_ok l d = True"

inductive dsteps ::
  "'s store_ops \<Rightarrow> (string \<Rightarrow> string \<Rightarrow> bool option) \<Rightarrow> (go_time \<Rightarrow> bool) \<Rightarrow>
   's dispatcher \<Rightarrow> label list \<Rightarrow> 's dispatcher \<Rightarrow> bool"
  for ops match clock_ok where
  no_steps: "dsteps ops match clock_ok d [] d"
| more_steps: "dstep ops match d l d1 \<Longrightarrow> env_ok ops clock_ok l d \<Longrightarrow> dsteps ops match clock_ok d1 ls d2 \<Longrightarrow>
    dsteps ops match clock_ok d (l # ls) d2"

inductive_cases dsteps_ConsE: "dsteps ops match clock_ok d (l # ls) d'"
inductive_cases dsteps_NilE: "dsteps ops match clock_ok d [] d'"

text \<open>A dispatcher as \<open>NewDispatcher\<close> returns it, over a router and a history built by the program.\<close>

definition initial :: "'s dispatcher \<Rightarrow> bool" where
  "initial d \<longleftrightarrow> (\<exists>st rs executors r opts m n now. NewRouter rs executors = Inr r
     \<and> (NewDispatcher st r opts m None now = Some d \<or> NewDispatcher st r opts m (Some (history_New n)) now = Some d))"

lemma initialD:
  "initial d \<Longrightarrow> d_procs d = [] \<and> d_sem d = 0 \<and> \<not> d_cancelled d \<and> token_inv d \<and> safe_inv d"
  by (auto simp: initial_def NewDispatcher_def token_inv_def safe_inv_def count_simps
      intro: NewRouter_wf history_inv_New split: if_splits)

section \<open>The dispatcher over any store that meets the contract\<close>

locale dispatch_store = store_contract ops view handles invar clock_ok
  for ops :: "'s store_ops" and view and handles and invar and clock_ok +
  fixes match :: "string \<Rightarrow> string \<Rightarrow> bool option"
begin

abbreviation locks :: "'s dispatcher \<Rightarrow> lock list" where
  "locks d \<equiv> map lock_of (d_procs d)"

definition dinv :: "string set \<Rightarrow> 's dispatcher \<Rightarrow> bool" where
  "dinv stale d \<longleftrightarrow> invar (d_store d) \<and> clock_ok (d_now d) \<and> token_inv d \<and> safe_inv d
     \<and> lock_inv (view (d_store d)) stale (locks d)"

lemma Enqueue_queue_effect:
  assumes "invar (d_store d)" "clock_ok (d_now d)" and "Enqueue_queue ops ev ex d = (new, d')"
  defines "k \<equiv> Key (ev_Repo ev)"
  obtains (queued) "new = [Spawned ev ex]" "view (d_store d) k = None" "invar (d_store d')"
      "view (d_store d') = (view (d_store d))(k \<mapsto>
         \<lparr>State = StateQueued, Reason = ev_Reason ev, Since = d_now d, PendingRerun = False\<rparr>)"
  | (coalesced) st where "new = []" "view (d_store d) k = Some st" "State st \<noteq> StateRunning"
      "view (d_store d') = view (d_store d)" "invar (d_store d')"
  | (deferred) st where "new = []" "view (d_store d) k = Some st" "State st = StateRunning"
      "invar (d_store d')" "view (d_store d') = (view (d_store d))(k \<mapsto> st\<lparr>PendingRerun := True\<rparr>)"
proof -
  obtain q s where q: "Queue ops (d_now d) k (ev_Reason ev) (d_store d) = (q, s)" by fastforce
  have s: "invar s" using queue_spec [OF assms(1,2) q] by simp
  from assms(1,2) q show ?thesis
  proof (cases rule: queue_cases)
    case queued
    with q s assms(3) that(1) show ?thesis by (auto simp: Enqueue_queue_def k_def)
  next
    case (coalesced st)
    with q s assms(3) that(2) show ?thesis by (auto simp: Enqueue_queue_def k_def)
  next
    case (deferred st)
    with q s assms(3) that(3) show ?thesis by (auto simp: Enqueue_queue_def k_def)
  qed
qed

lemma store_FinishRun_effect:
  assumes "invar (d_store d)" and "store_FinishRun ops repo d = (b, d')"
  shows "view (d_store d') = (view (d_store d))(Key repo := None) \<and> invar (d_store d')
    \<and> b = (\<exists>st. view (d_store d) (Key repo) = Some st \<and> PendingRerun st)"
  using assms finish_spec [of "d_store d" "Key repo"]
  by (auto simp: store_FinishRun_def spec_finish_def split: prod.splits option.splits)

text \<open>What a step of a goroutine does to the locks and to the entries of the store.\<close>

text \<open>The steps by what they do to the store: nothing, \<open>Queue\<close>, \<open>StartRun\<close> or \<open>FinishRun\<close>.\<close>

lemma go_step_kinds:
  assumes "go_step ops match c p d = Some (p', new, d')"
  obtains (local_step) "d_store d' = d_store d" "lock_of p' = lock_of p" "new = []"
  | (queue) ev ex where "enq_event p = Some ev" "lock_of p = Free" "lock_of p' = Free" "Enqueue_queue ops ev ex d = (new, d')"
  | (start) ev ex where "p = Starting ev ex" "p' = Launching ev ex" "new = []"
      "d_store d' = StartRun ops (d_now d) (Key (ev_Repo ev)) (d_store d)"
  | (finish) repo b where "store_FinishRun ops repo d = (b, d')" "lock_on (Key repo) (lock_of p)" "lock_of p' = Free" "new = []"
proof (cases p)
  case (EnqCall ev ex)
  with assms queue [of ev ex] show ?thesis by (cases c) (auto split: prod.splits)
next
  case (Debouncing ev ex t)
  with assms local_step finish [of "ev_Repo ev" "fst (store_FinishRun ops (ev_Repo ev) d)"] show ?thesis
    by (cases c) (auto simp: run_debounce_def run_abort_def split: if_splits)
next
  case (Acquiring ev ex)
  with assms local_step finish [of "ev_Repo ev" "fst (store_FinishRun ops (ev_Repo ev) d)"] show ?thesis
    by (cases c) (auto simp: run_acquire_def run_abort_def split: if_splits)
next
  case (Starting ev ex)
  with assms start [of ev ex] show ?thesis by (cases c) (auto simp: run_start_def)
next
  case (Releasing repo tok)
  with assms finish [of repo] show ?thesis by (cases c) (auto simp: finish_release_def split: prod.splits if_splits)
next
  case (ReCall ev ex tok)
  with assms queue [of ev ex] show ?thesis by (cases c) (auto split: prod.splits)
qed (use assms local_step in \<open>cases c; auto simp: go_step_defs split: option.splits if_splits\<close>)+

lemma go_step_effect:
  assumes inv: "invar (d_store d)" "clock_ok (d_now d)"
    and go: "go_step ops match c p d = Some (p', new, d')"
  obtains (same) "view (d_store d') = view (d_store d)" "lock_of p' = lock_of p" "new = []"
      "invar (d_store d')"
  | (queued) ev ex where "enq_event p = Some ev" "lock_of p = Free" "lock_of p' = Free"
      "new = [Spawned ev ex]"
      "view (d_store d) (Key (ev_Repo ev)) = None" "invar (d_store d')"
      "view (d_store d') = (view (d_store d))(Key (ev_Repo ev) \<mapsto>
         \<lparr>State = StateQueued, Reason = ev_Reason ev, Since = d_now d, PendingRerun = False\<rparr>)"
  | (deferred) ev st where "enq_event p = Some ev" "lock_of p = Free" "lock_of p' = Free" "new = []"
      "view (d_store d) (Key (ev_Repo ev)) = Some st" "State st = StateRunning" "invar (d_store d')"
      "view (d_store d') = (view (d_store d))(Key (ev_Repo ev) \<mapsto> st\<lparr>PendingRerun := True\<rparr>)"
  | (start) ev ex where "p = Starting ev ex" "p' = Launching ev ex" "new = []"
      "view (d_store d') = spec_start (d_now d) (Key (ev_Repo ev)) (view (d_store d))" "invar (d_store d')"
  | (finish) k where "lock_on k (lock_of p)" "lock_of p' = Free" "new = []" "invar (d_store d')"
      "view (d_store d') = (view (d_store d))(k := None)"
  using go
proof (cases rule: go_step_kinds)
  case local_step
  with same inv show ?thesis by simp
next
  case (queue ev ex)
  note free = queue(1-3) and qd = queued and df = deferred
  show ?thesis using inv queue(4)
  proof (cases rule: Enqueue_queue_effect)
    case queued
    with free qd show ?thesis by blast
  next
    case coalesced
    with free same show ?thesis by simp
  next
    case (deferred st)
    with free df show ?thesis by blast
  qed
next
  case (start ev ex)
  with start_spec [OF inv refl, of "Key (ev_Repo ev)"] that(4) show ?thesis by simp
next
  case (finish repo b)
  with store_FinishRun_effect [OF inv(1) finish(1)] that(5) show ?thesis by blast
qed

lemma dinv_go:
  assumes inv: "dinv stale d" and i: "i < length (d_procs d)"
    and go: "go_step ops match c (d_procs d ! i) d = Some (p, new, d')"
  shows "dinv stale (d'\<lparr>d_procs := (d_procs d)[i := p] @ new\<rparr>)"
proof -
  let ?v = "view (d_store d)" and ?ls = "locks d"
  have b: "invar (d_store d)" "clock_ok (d_now d)" and li: "lock_inv ?v stale ?ls"
    using inv by (simp_all add: dinv_def)
  have nth: "?ls ! i = lock_of (d_procs d ! i)" and il: "i < length ?ls" using i by simp_all
  have "lock_inv (view (d_store d')) stale (?ls[i := lock_of p] @ map lock_of new) \<and> invar (d_store d')"
    using b go
  proof (cases rule: go_step_effect)
    case same
    with li nth show ?thesis by (metis append_Nil2 list.simps(8) list_update_id)
  next
    case (queued ev ex)
    have fr: "?ls[i := Free] = ?ls" using queued(2) nth by (metis list_update_id)
    have "\<not> lock_on (Key (ev_Repo ev)) (?ls ! j)" if "j < length ?ls" for j
      using li that queued(5) by (cases "?ls ! j") (auto simp: lock_inv_def dest!: spec [of _ j])
    then have "countP (lock_on (Key (ev_Repo ev))) ?ls = 0" by (simp only: countP_zero_iff) blast
    from lock_inv_take [OF li this, of "LQueued (Key (ev_Repo ev))"] queued fr show ?thesis by simp
  next
    case (deferred ev st)
    have fr: "?ls[i := Free] = ?ls" using deferred(2) nth by (metis list_update_id)
    from lock_inv_flag [OF li deferred(5,6)] deferred fr show ?thesis by simp
  next
    case (start ev ex)
    have on: "lock_on (Key (ev_Repo ev)) (?ls ! i)" using start nth by simp
    obtain st where st: "?v (Key (ev_Repo ev)) = Some st"
      using li il nth start(1) by (auto simp: lock_inv_def dest!: spec [of _ i])
    from lock_inv_move [OF li il on, of "LRunning (Key (ev_Repo ev))" "st\<lparr>State := StateRunning, Since := d_now d\<rparr>"]
    show ?thesis using start st by (simp add: spec_start_def)
  next
    case (finish k)
    have "lock_on k (?ls ! i)" using finish(1) nth by simp
    from lock_inv_drop [OF li il this] finish show ?thesis by simp
  qed
  with inv token_inv_go [OF _ i go] safe_inv_go [OF _ i go] go_step_frame [OF go] show ?thesis
    by (simp add: dinv_def map_update)
qed

lemma dinv_adopt:
  assumes inv: "dinv stale d" and ok: "adopt_ok ops repo d"
  shows "dinv stale (Adopt_run ops repo name d)"
proof -
  let ?v = "view (d_store d)" and ?k = "Key repo"
  have b: "invar (d_store d)" "clock_ok (d_now d)" and li: "lock_inv ?v stale (locks d)"
    using inv by (simp_all add: dinv_def)
  have free: "countP (lock_on ?k) (locks d) = 0" and
    st: "case ?v ?k of None \<Rightarrow> True | Some st \<Rightarrow> State st = StateRunning"
    using ok snapshot_spec [OF b(1)] by (auto simp: adopt_ok_def countP_zero_iff list_all_length)
  obtain st' where st': "spec_adopt (d_now d) ?k ReasonRerun ?v = ?v(?k \<mapsto> st')" "State st' = StateRunning"
    using st fun_upd_triv [of ?v ?k] by (cases "?v ?k") (fastforce simp: spec_adopt_def)+
  from lock_inv_take [OF li free, of "LRunning ?k" st'] st' adopt_spec [OF b refl, of ?k ReasonRerun]
  have "lock_inv (view (d_store (Adopt_run ops repo name d))) stale (locks (Adopt_run ops repo name d))
      \<and> invar (d_store (Adopt_run ops repo name d))"
    by (simp add: Adopt_run_def)
  moreover have "token_inv (Adopt_run ops repo name d) \<and> safe_inv (Adopt_run ops repo name d)"
    using inv by (auto simp: dinv_def Adopt_run_def token_inv_def safe_inv_def count_simps)
  ultimately show ?thesis using b by (simp add: dinv_def Adopt_run_def)
qed

lemma lock_inv_Free: "lock_inv v stale ls \<Longrightarrow> lock_inv v stale (ls @ [Free])"
  by (auto simp: lock_inv_def count_simps nth_append less_Suc_eq)

lemma dinv_enqueue: "dinv stale d \<Longrightarrow> dinv stale (Enqueue_call match ev d)"
  by (auto simp: dinv_def Enqueue_call_def Enqueue_route_def Let_def token_inv_def safe_inv_def
      count_simps Route_wf lock_inv_Free)

lemma dinv_dstep:
  assumes "dinv stale d" and "dstep ops match d l d'" and "env_ok ops clock_ok l d"
  shows "dinv stale d'"
  using assms(2) assms(1,3)
proof (cases rule: dstep.cases)
  case (go i c p new d'')
  with assms(1) dinv_go show ?thesis by blast
next
  case (enqueue ev)
  with assms(1) dinv_enqueue show ?thesis by blast
next
  case (adopt repo name)
  with assms(1,3) dinv_adopt show ?thesis by simp
next
  case (set_router r)
  with assms(1,3) show ?thesis
    by (auto simp: dinv_def SetRouter_def token_inv_def safe_inv_def intro: NewRouter_wf)
qed (auto simp: dinv_def token_inv_def safe_inv_def)

lemma dinv_dsteps:
  "dsteps ops match clock_ok d ls d' \<Longrightarrow> dinv stale d \<Longrightarrow> dinv stale d'"
  by (induction rule: dsteps.induct) (auto intro: dinv_dstep)

lemma dinv_initial:
  assumes "initial d" and "invar (d_store d)" and "clock_ok (d_now d)"
  shows "dinv (dom (view (d_store d))) d"
  using assms initialD [OF assms(1)] by (auto simp: dinv_def lock_inv_def count_simps)

lemma dinv_reachable:
  "initial d0 \<Longrightarrow> invar (d_store d0) \<Longrightarrow> clock_ok (d_now d0) \<Longrightarrow> dsteps ops match clock_ok d0 ls d \<Longrightarrow>
   dinv (dom (view (d_store d0))) d"
  by (rule dinv_dsteps [OF _ dinv_initial])

text \<open>At most one goroutine is past \<open>Queue\<close> and before \<open>FinishRun\<close> for a repository.\<close>

lemma mutual_exclusion:
  assumes "dinv stale d" "i < length (d_procs d)" "j < length (d_procs d)"
    and "lock_on k (lock_of (d_procs d ! i))" "lock_on k (lock_of (d_procs d ! j))"
  shows "i = j"
  using assms countP_le_one_unique [of "lock_on k" "locks d" i j] by (simp add: dinv_def lock_inv_def)

lemma owner_entry:
  assumes "dinv stale d" "i < length (d_procs d)"
  shows "lock_ok (view (d_store d)) (lock_of (d_procs d ! i))"
  using assms by (auto simp: dinv_def lock_inv_def dest!: spec [of _ i])

lemma entry_owner:
  assumes "dinv stale d" "view (d_store d) k \<noteq> None" "k \<notin> stale"
  shows "\<exists>i < length (d_procs d). lock_on k (lock_of (d_procs d ! i))"
proof -
  have "0 < countP (lock_on k) (locks d)" using assms by (auto simp: dinv_def lock_inv_def)
  then have "\<not> (\<forall>i < length (locks d). \<not> lock_on k (locks d ! i))"
    by (simp only: countP_zero_iff [symmetric])
  then show ?thesis by auto
qed

lemma token_bound:
  assumes "dinv stale d"
  shows "int (countP holds_token (d_procs d)) \<le> opt_MaxConcurrent (d_opts d)"
  using assms by (simp add: dinv_def token_inv_def)

end

section \<open>Termination of the goroutines\<close>

text \<open>
  Each program point has a weight, and the goroutine that will start a deferred rerun has
  the weight of that rerun on top: every step of a goroutine lowers the sum.
\<close>

fun base_weight :: "proc \<Rightarrow> nat" where
  "base_weight (EnqCall ev ex) = 13"
| "base_weight (Spawned ev ex) = 12"
| "base_weight (Debouncing ev ex t) = 11"
| "base_weight (Acquiring ev ex) = 10"
| "base_weight (Starting ev ex) = 9"
| "base_weight (Launching ev ex) = 8"
| "base_weight (Executing ev ex t) = 7"
| "base_weight (AdoptSpawned repo name) = 8"
| "base_weight (AdoptWaiting repo name t) = 7"
| "base_weight (Finishing repo reason name t err tok) = 6"
| "base_weight (Recording repo reason name t err result tok) = 5"
| "base_weight (Releasing repo tok) = 4"
| "base_weight (Reenqueue repo tok) = 15"
| "base_weight (ReCall ev ex tok) = 14"
| "base_weight (Exiting tok) = 1"
| "base_weight Done = 0"

definition pending :: "statuses \<Rightarrow> string \<Rightarrow> bool" where
  "pending v k \<longleftrightarrow> (\<exists>st. v k = Some st \<and> PendingRerun st)"

fun lock_weight :: "statuses \<Rightarrow> lock \<Rightarrow> nat" where
  "lock_weight v (LRunning k) = (if pending v k then 12 else 0)"
| "lock_weight v l = 0"

definition work :: "statuses \<Rightarrow> proc list \<Rightarrow> nat" where
  "work v ps = sum_list (map base_weight ps) + sum_list (map (lock_weight v) (map lock_of ps))"

lemma sum_list_map_update:
  "i < length xs \<Longrightarrow> sum_list (map f (xs[i := y])) + f (xs ! i) = sum_list (map f xs) + (f y :: nat)"
proof (induction xs arbitrary: i)
  case Nil
  then show ?case by simp
next
  case (Cons x xs)
  then show ?case by (cases i) (auto simp: algebra_simps)
qed

text \<open>A change of the entry of \<open>k\<close> weighs at most on the one owner of \<open>k\<close>.\<close>

lemma lock_weight_change:
  assumes "\<And>k'. k' \<noteq> k \<Longrightarrow> v' k' = v k'"
  shows "sum_list (map (lock_weight v') ls)
    \<le> sum_list (map (lock_weight v) ls) + (if pending v' k \<and> \<not> pending v k then 12 else 0) * countP (lock_on k) ls"
proof (induction ls)
  case Nil
  then show ?case by (simp add: count_simps)
next
  case (Cons l ls)
  have "lock_weight v' l \<le> lock_weight v l
      + (if pending v' k \<and> \<not> pending v k then 12 else 0) * (if lock_on k l then 1 else 0)"
  proof (cases l)
    case (LRunning k')
    show ?thesis
    proof (cases "k' = k")
      case True
      with LRunning show ?thesis by (auto simp: pending_def)
    next
      case False
      with LRunning assms [of k'] show ?thesis by (simp add: pending_def)
    qed
  qed auto
  with Cons.IH show ?case by (auto simp: count_simps algebra_simps split: if_splits)
qed

context dispatch_store
begin

lemma go_step_base:
  assumes "invar (d_store d)" and "go_step ops match c p d = Some (p', new, d')"
  shows "base_weight p' + sum_list (map base_weight new)
    < base_weight p + (if lock_of p' = Free then lock_weight (view (d_store d)) (lock_of p) else 0)"
  using assms(2) store_FinishRun_effect [OF assms(1)]
  by (cases p; cases c)
    (fastforce simp: go_step_defs pending_def split: go_step_splits)+

lemma go_step_enq_weight:
  "go_step ops match c p d = Some (p', [], d') \<Longrightarrow> enq_event p = Some ev \<Longrightarrow>
   base_weight p' + 12 < base_weight p"
  by (cases p; cases c) (auto split: prod.splits)

lemma work_decreases:
  assumes inv: "dinv stale d" and i: "i < length (d_procs d)"
    and go: "go_step ops match c (d_procs d ! i) d = Some (p, new, d')"
  shows "work (view (d_store d')) ((d_procs d)[i := p] @ new) < work (view (d_store d)) (d_procs d)"
proof -
  let ?v = "view (d_store d)" and ?v' = "view (d_store d')" and ?ls = "locks d"
  let ?W = "\<lambda>v ls. sum_list (map (lock_weight v) ls)"
  have b: "invar (d_store d)" "clock_ok (d_now d)" and li: "lock_inv ?v stale ?ls"
    using inv by (simp_all add: dinv_def)
  have nth: "?ls ! i = lock_of (d_procs d ! i)" and il: "i < length ?ls" using i by simp_all
  note base = go_step_base [OF b(1) go]
    and upd = sum_list_map_update [OF i, of base_weight p]
  have new: "?W v' (map lock_of new) = 0" for v' using go_step_new [OF go] by auto
  have wk: "work ?v' ((d_procs d)[i := p] @ new) = sum_list (map base_weight ((d_procs d)[i := p]))
      + sum_list (map base_weight new) + ?W ?v' (?ls[i := lock_of p])"
    using new [of ?v'] by (simp add: work_def map_update)
  have wkd: "work ?v (d_procs d) = sum_list (map base_weight (d_procs d)) + ?W ?v ?ls"
    by (simp add: work_def)
  show ?thesis using b go
  proof (cases rule: go_step_effect)
    case same
    have "?ls[i := lock_of p] = ?ls" using same(2) nth by (metis list_update_id)
    with same base upd wk wkd show ?thesis by (auto split: if_splits)
  next
    case (queued ev ex)
    have "?ls[i := lock_of p] = ?ls" using queued(2,3) nth by (metis list_update_id)
    moreover have "?W ?v' ?ls \<le> ?W ?v ?ls"
      using lock_weight_change [of "Key (ev_Repo ev)" ?v' ?v ?ls] queued(7) by (simp add: pending_def)
    ultimately show ?thesis using queued base upd wk wkd by simp
  next
    case (deferred ev st)
    have "?ls[i := lock_of p] = ?ls" using deferred(2,3) nth by (metis list_update_id)
    moreover have "?W ?v' ?ls \<le> ?W ?v ?ls + 12 * countP (lock_on (Key (ev_Repo ev))) ?ls"
      using lock_weight_change [of "Key (ev_Repo ev)" ?v' ?v ?ls] deferred(8) by (auto split: if_splits)
    moreover have "countP (lock_on (Key (ev_Repo ev))) ?ls \<le> 1" using li by (simp add: lock_inv_def)
    ultimately show ?thesis
      using go_step_enq_weight [OF go [unfolded deferred(4)] deferred(1)] upd wk wkd deferred(4) by simp
  next
    case (start ev ex)
    obtain st where st: "?v (Key (ev_Repo ev)) = Some st" "\<not> PendingRerun st"
      using li il nth start(1) by (auto simp: lock_inv_def dest!: spec [of _ i])
    then have np: "\<not> pending ?v' (Key (ev_Repo ev))" using start(4) by (simp add: pending_def spec_start_def)
    have "?W ?v' ?ls \<le> ?W ?v ?ls"
      using lock_weight_change [of "Key (ev_Repo ev)" ?v' ?v ?ls] start(4) np st by (auto simp: spec_start_def)
    moreover have "?W ?v' (?ls[i := lock_of p]) \<le> ?W ?v' ?ls"
      using sum_list_map_update [OF il, of "lock_weight ?v'" "lock_of p"] start(2) np by simp
    ultimately show ?thesis using start base upd wk wkd by simp
  next
    case (finish k)
    have "?W ?v' (?ls[i := Free]) \<le> ?W ?v (?ls[i := Free])"
      using lock_weight_change [of k ?v' ?v "?ls[i := Free]"] finish(5) by (simp add: pending_def)
    then have "?W ?v' (?ls[i := Free]) + lock_weight ?v (?ls ! i) \<le> ?W ?v ?ls"
      using sum_list_map_update [OF il, of "lock_weight ?v" Free] by simp
    with finish base upd wk wkd nth show ?thesis by simp
  qed
qed

text \<open>
  The number of steps of goroutines is bounded by the requests: at most 13 for a call of
  \<open>Enqueue\<close> and 20 for an adopted run, reruns included.
\<close>

lemma work_env:
  assumes inv: "dinv stale d" and st: "dstep ops match d l d'" and ok: "env_ok ops clock_ok l d"
    and l: "\<And>i c. l \<noteq> LGo i c"
  shows "work (view (d_store d')) (d_procs d') \<le> work (view (d_store d)) (d_procs d)
    + (case l of LEnqueue ev \<Rightarrow> 13 | LAdopt repo name \<Rightarrow> 20 | _ \<Rightarrow> 0)"
  using st
proof (cases rule: dstep.cases)
  case (adopt repo name)
  let ?k = "Key repo" and ?v = "view (d_store d)"
  have b: "invar (d_store d)" "clock_ok (d_now d)" using inv by (simp_all add: dinv_def)
  have v': "view (d_store d') = spec_adopt (d_now d) ?k ReasonRerun ?v"
    using adopt adopt_spec [OF b refl] by (simp add: Adopt_run_def)
  have "countP (lock_on ?k) (locks d) = 0"
    using ok adopt by (auto simp: adopt_ok_def countP_zero_iff list_all_length)
  then have "sum_list (map (lock_weight (view (d_store d'))) (locks d)) \<le> sum_list (map (lock_weight ?v) (locks d))"
    using lock_weight_change [of ?k "view (d_store d')" ?v "locks d"]
    by (auto simp: v' spec_adopt_def split: option.splits)
  with adopt show ?thesis by (simp add: work_def Adopt_run_def)
qed (use l in \<open>auto simp: work_def Enqueue_call_def SetRouter_def Let_def\<close>)

lemma steps_bounded:
  assumes "dsteps ops match clock_ok d ls d'" and "dinv stale d"
  shows "length (filter (\<lambda>l. \<exists>i c. l = LGo i c) ls) + work (view (d_store d')) (d_procs d')
    \<le> work (view (d_store d)) (d_procs d)
      + 13 * length (filter (\<lambda>l. \<exists>ev. l = LEnqueue ev) ls) + 20 * length (filter (\<lambda>l. \<exists>r n. l = LAdopt r n) ls)"
  using assms
proof (induction rule: dsteps.induct)
  case (no_steps d)
  then show ?case by simp
next
  case (more_steps d l d1 ls d2)
  have IH: "length (filter (\<lambda>l. \<exists>i c. l = LGo i c) ls) + work (view (d_store d2)) (d_procs d2)
    \<le> work (view (d_store d1)) (d_procs d1)
      + 13 * length (filter (\<lambda>l. \<exists>ev. l = LEnqueue ev) ls) + 20 * length (filter (\<lambda>l. \<exists>r n. l = LAdopt r n) ls)"
    using more_steps.IH dinv_dstep [OF more_steps.prems more_steps.hyps(1,2)] by blast
  show ?case
  proof (cases "\<exists>i c. l = LGo i c")
    case True
    then obtain i c where l: "l = LGo i c" by blast
    with more_steps.hyps(1) obtain p new d'' where "i < length (d_procs d)"
      "go_step ops match c (d_procs d ! i) d = Some (p, new, d'')"
      "d1 = d''\<lparr>d_procs := (d_procs d)[i := p] @ new\<rparr>" by auto
    with work_decreases [OF more_steps.prems] IH l show ?thesis by fastforce
  next
    case False
    with work_env [OF more_steps.prems more_steps.hyps(1,2)] IH show ?thesis
      by (cases l) auto
  qed
qed

section \<open>Progress\<close>

text \<open>
  No deadlock: unless every goroutine is done, one of them has a step, once the debounce
  timers have expired. A goroutine waits at the semaphore only while another one holds a
  token, and the holders of tokens never wait for anything but their executor.
\<close>

lemma go_step_enabled:
  assumes safe: "has_executor p" "\<And>h. d_hist d = Some h \<Longrightarrow> history_inv h"
    and p: "p \<noteq> Done" "\<And>ev ex. p \<noteq> Acquiring ev ex"
    and timer: "\<And>ev ex t. p = Debouncing ev ex t \<Longrightarrow> t \<le> d_now d"
  shows "\<exists>c. go_step ops match c p d \<noteq> None"
proof -
  have "go_step ops match Proceed p d \<noteq> None \<or> go_step ops match (Return None) p d \<noteq> None"
  proof (cases p)
    case (Recording repo reason name t err result tok)
    have "finish_record repo reason name t err result d \<noteq> None"
    proof (cases "d_hist d")
      case (Some h)
      then obtain h' where "Record h (finish_entry repo reason name t err result (d_now d)) = Some h'"
        using Record_total safe(2) by blast
      with Some show ?thesis by (simp add: finish_record_def)
    qed (simp add: finish_record_def)
    with Recording show ?thesis by auto
  qed (use assms in \<open>auto simp: go_step_defs split: go_step_splits\<close>)
  then show ?thesis by blast
qed

lemma progress:
  assumes inv: "dinv stale d" and m: "0 < opt_MaxConcurrent (d_opts d)"
    and timers: "\<And>ev ex t. Debouncing ev ex t \<in> set (d_procs d) \<Longrightarrow> t \<le> d_now d"
    and busy: "\<exists>p \<in> set (d_procs d). p \<noteq> Done"
  shows "\<exists>i c d'. dstep ops match d (LGo i c) d'"
proof -
  have safe: "has_executor p" if "p \<in> set (d_procs d)" for p
    using inv that by (simp add: dinv_def safe_inv_def)
  have hist: "history_inv h" if "d_hist d = Some h" for h using inv that by (simp add: dinv_def safe_inv_def)
  have "\<exists>p \<in> set (d_procs d). \<exists>c. go_step ops match c p d \<noteq> None"
  proof (cases "\<exists>p \<in> set (d_procs d). p \<noteq> Done \<and> (\<forall>ev ex. p \<noteq> Acquiring ev ex)")
    case True
    then obtain p where p: "p \<in> set (d_procs d)" "p \<noteq> Done" "\<And>ev ex. p \<noteq> Acquiring ev ex" by blast
    have "\<exists>c. go_step ops match c p d \<noteq> None"
      using safe [OF p(1)] hist p(2,3) timers p(1) by (intro go_step_enabled) auto
    with p(1) show ?thesis by blast
  next
    case False
    then have "\<not> holds_token p" if "p \<in> set (d_procs d)" for p using that by (cases p) auto
    then have "d_sem d = 0" using inv
      by (auto simp: dinv_def token_inv_def countP_def filter_empty_conv)
    moreover obtain ev ex where "Acquiring ev ex \<in> set (d_procs d)" using False busy by blast
    ultimately show ?thesis using m by (intro bexI [of _ "Acquiring ev ex"] exI [of _ Proceed])
        (auto simp: run_acquire_def)
  qed
  then show ?thesis by (force simp: in_set_conv_nth)
qed

lemma quiescent:
  assumes inv: "dinv stale d" and dn: "\<forall>p \<in> set (d_procs d). p = Done"
  shows "d_sem d = 0 \<and> dom (view (d_store d)) \<subseteq> stale"
proof -
  have "locks d = replicate (length (d_procs d)) Free"
    using dn by (metis (no_types, lifting) length_map list.map_cong0 lock_of.simps(16) map_replicate_const)
  moreover have "\<not> holds_token p" if "p \<in> set (d_procs d)" for p using dn that by auto
  ultimately show ?thesis using inv
    by (auto simp: dinv_def token_inv_def lock_inv_def countP_def filter_empty_conv)
qed

end

section \<open>No request is lost\<close>

text \<open>
  A run of \<open>k\<close> is owed while a goroutine is on its way to start one, while the running one
  will find the rerun flag, or while the rerun is being enqueued.
\<close>

fun rerun_for :: "string \<Rightarrow> proc \<Rightarrow> bool" where
  "rerun_for k (Reenqueue repo tok) = (Key repo = k)"
| "rerun_for k (ReCall ev ex tok) = (Key (ev_Repo ev) = k)"
| "rerun_for k p = False"

definition owed :: "statuses \<Rightarrow> proc list \<Rightarrow> string \<Rightarrow> bool" where
  "owed v ps k \<longleftrightarrow> LQueued k \<in> lock_of ` set ps \<or> pending v k \<and> LRunning k \<in> lock_of ` set ps
     \<or> (\<exists>p \<in> set ps. rerun_for k p)"

lemma owed_rerun: "p \<in> set ps \<Longrightarrow> rerun_for k p \<Longrightarrow> owed v ps k"
  by (auto simp: owed_def)

lemma in_set_update_other: "x \<in> set xs \<Longrightarrow> x \<noteq> xs ! i \<Longrightarrow> x \<in> set (xs[i := y])"
  by (metis in_set_conv_nth length_list_update nth_list_update_neq)

lemma lock_in_update:
  assumes "l \<in> lock_of ` set ps" and "i < length ps" and "lock_of (ps ! i) = l \<Longrightarrow> lock_of p = l"
  shows "l \<in> lock_of ` set (ps[i := p])"
proof -
  obtain q where q: "q \<in> set ps" "l = lock_of q" using assms(1) by blast
  show ?thesis
  proof (cases "q = ps ! i")
    case True
    with q assms(3) have "lock_of p = l" by simp
    with set_update_memI [OF assms(2), of p] show ?thesis by blast
  next
    case False
    with in_set_update_other [OF q(1)] q(2) show ?thesis by blast
  qed
qed

text \<open>The obligation survives a step that keeps the locks and the flag of \<open>k\<close>.\<close>

lemma owed_update:
  assumes "owed v ps k" and "i < length ps"
    and "lock_on k (lock_of (ps ! i)) \<Longrightarrow> lock_of p = lock_of (ps ! i)"
    and "rerun_for k (ps ! i) \<Longrightarrow> rerun_for k p"
    and "pending v k \<Longrightarrow> pending v' k"
  shows "owed v' (ps[i := p] @ new) k"
proof -
  have "l \<in> lock_of ` set (ps[i := p])" if "l \<in> lock_of ` set ps" "lock_on k l" for l
    using lock_in_update [OF that(1) assms(2)] assms(3) that(2) by metis
  then have lk: "LQueued k \<in> lock_of ` set ps \<Longrightarrow> LQueued k \<in> lock_of ` set (ps[i := p])"
    "LRunning k \<in> lock_of ` set ps \<Longrightarrow> LRunning k \<in> lock_of ` set (ps[i := p])" by simp_all
  have rr: "\<exists>q \<in> set (ps[i := p]). rerun_for k q" if "q \<in> set ps" "rerun_for k q" for q
  proof (cases "q = ps ! i")
    case True
    with that assms(4) set_update_memI [OF assms(2), of p] show ?thesis by blast
  next
    case False
    with that in_set_update_other [OF that(1)] show ?thesis by blast
  qed
  have "LQueued k \<in> lock_of ` set (ps[i := p]) \<or> pending v' k \<and> LRunning k \<in> lock_of ` set (ps[i := p])
      \<or> (\<exists>q \<in> set (ps[i := p]). rerun_for k q)"
    using assms(1,5) lk rr unfolding owed_def by blast
  then show ?thesis by (auto simp: owed_def)
qed

context dispatch_store
begin

lemma owed_after_queue:
  assumes inv: "dinv stale d" and k: "k \<notin> stale" and i: "i < length (d_procs d)"
    and go: "go_step ops match c (d_procs d ! i) d = Some (p, new, d')"
    and ev: "enq_event (d_procs d ! i) = Some ev" "Key (ev_Repo ev) = k"
  shows "owed (view (d_store d')) ((d_procs d)[i := p] @ new) k"
proof -
  have b: "invar (d_store d)" "clock_ok (d_now d)" using inv by (simp_all add: dinv_def)
  obtain ex where q: "Enqueue_queue ops ev ex d = (new, d')"
    using go ev(1) by (cases "d_procs d ! i"; cases c) (auto split: prod.splits)
  have "lock_of (d_procs d ! i) = Free" using ev(1) by (cases "d_procs d ! i") auto
  then have keep: "l \<in> lock_of ` set ((d_procs d)[i := p])" if "l \<in> lock_of ` set (d_procs d)" "l \<noteq> Free" for l
    using lock_in_update [OF that(1) i] that(2) by metis
  have owner: "\<exists>l \<in> lock_of ` set (d_procs d). lock_on k l \<and> lock_ok (view (d_store d)) l"
    if "view (d_store d) k \<noteq> None"
    using entry_owner [OF inv that k] owner_entry [OF inv] nth_mem by blast
  from b q show ?thesis
  proof (cases rule: Enqueue_queue_effect)
    case queued
    with ev(2) show ?thesis by (auto simp: owed_def)
  next
    case (coalesced st)
    then obtain l where l: "l \<in> lock_of ` set (d_procs d)" "lock_on k l" "lock_ok (view (d_store d)) l"
      using owner ev(2) by auto
    then have "l = LQueued k" using coalesced ev(2) by (cases l) auto
    with keep [OF l(1)] coalesced show ?thesis by (auto simp: owed_def)
  next
    case (deferred st)
    then obtain l where l: "l \<in> lock_of ` set (d_procs d)" "lock_on k l" "lock_ok (view (d_store d)) l"
      using owner ev(2) by auto
    then have "l = LRunning k" using deferred ev(2) by (cases l) auto
    with keep [OF l(1)] deferred ev(2) show ?thesis by (auto simp: owed_def pending_def)
  qed
qed

text \<open>The release of a repository that is owed a run: the goroutine goes on to enqueue it again, or another one will.\<close>

lemma owed_after_release:
  assumes inv: "dinv stale d" and i: "i < length (d_procs d)" and rel: "d_procs d ! i = Releasing repo tok \<and> Key repo = k"
    and go: "go_step ops match c (d_procs d ! i) d = Some (p, new, d')"
    and ow: "owed (view (d_store d)) (d_procs d) k"
  shows "owed (view (d_store d')) ((d_procs d)[i := p] @ new) k"
proof -
  have b: "invar (d_store d)" using inv by (simp add: dinv_def)
  have rel': "finish_release ops repo tok d = (p, d')" using go rel by (cases c) (auto split: prod.splits)
  show ?thesis
  proof (cases "pending (view (d_store d)) k")
    case True
    then have "p = Reenqueue repo tok"
      using rel' rel store_FinishRun_effect [OF b, of repo "fst (store_FinishRun ops repo d)"]
      by (auto simp: finish_release_def pending_def split: prod.splits)
    with rel set_update_memI [OF i, of p] show ?thesis by (intro owed_rerun [of p]) auto
  next
    case False
    have "lock_of q \<noteq> LQueued k" if qin: "q \<in> set (d_procs d)" for q
    proof
      assume q: "lock_of q = LQueued k"
      obtain j where "j < length (d_procs d)" "d_procs d ! j = q" using qin unfolding in_set_conv_nth by blast
      with mutual_exclusion [OF inv this(1) i, of k] q rel have "d_procs d ! i = q" by simp
      with q rel show False by auto
    qed
    then have "LQueued k \<notin> lock_of ` set (d_procs d)" by (metis image_iff)
    then obtain q where "q \<in> set (d_procs d)" "rerun_for k q" using ow False unfolding owed_def by blast
    moreover from this have "q \<noteq> d_procs d ! i" using rel by auto
    ultimately show ?thesis using in_set_update_other [of q "d_procs d" i p]
      by (intro owed_rerun [of q]) auto
  qed
qed

lemma owed_go:
  assumes inv: "dinv stale d" and k: "k \<notin> stale" and i: "i < length (d_procs d)"
    and go: "go_step ops match c (d_procs d ! i) d = Some (p, new, d')"
    and ow: "owed (view (d_store d)) (d_procs d) k"
    and live: "\<not> d_cancelled d"
    and route: "\<And>repo. Key repo = k \<Longrightarrow> \<not> route_Disabled (Route_of match (d_router d) (repo_FullName repo))"
    and not_start: "\<And>ev ex. d_procs d ! i = Starting ev ex \<Longrightarrow> Key (ev_Repo ev) \<noteq> k"
  shows "owed (view (d_store d')) ((d_procs d)[i := p] @ new) k"
proof (cases "\<exists>ev. enq_event (d_procs d ! i) = Some ev \<and> Key (ev_Repo ev) = k")
  case True
  with owed_after_queue [OF inv k i go] show ?thesis by blast
next
  case False
  have b: "invar (d_store d)" "clock_ok (d_now d)" using inv by (simp_all add: dinv_def)
  have rr: "rerun_for k p" if "rerun_for k (d_procs d ! i)"
    using that go False route
    by (cases "d_procs d ! i"; cases c) (auto simp: finish_reroute_def Enqueue_route_def Let_def)
  note keep = owed_update [OF ow i _ rr]
  show ?thesis using b go
  proof (cases rule: go_step_effect)
    case same
    then show ?thesis by (intro keep) auto
  next
    case (queued ev ex)
    with False show ?thesis by (intro keep) (auto simp: pending_def)
  next
    case (deferred ev st)
    with False show ?thesis by (intro keep) (auto simp: pending_def)
  next
    case (start ev ex)
    with not_start have "Key (ev_Repo ev) \<noteq> k" by blast
    with start show ?thesis by (intro keep) (auto simp: pending_def spec_start_def split: option.splits)
  next
    case (finish k')
    show ?thesis
    proof (cases "k' = k")
      case False
      then have "\<not> lock_on k (lock_of (d_procs d ! i))" using finish(1) lock_on_unique by blast
      with finish False show ?thesis by (intro keep) (auto simp: pending_def)
    next
      case True
      then obtain repo tok where rel: "d_procs d ! i = Releasing repo tok" "Key repo = k"
        using go live finish(1,2)
        by (cases "d_procs d ! i"; cases c) (auto simp: go_step_defs split: go_step_splits)
      with owed_after_release [OF inv i _ go ow] show ?thesis by blast
    qed
  qed
qed

lemma owed_env:
  assumes inv: "dinv stale d" and st: "dstep ops match d l d'" and l: "\<And>i c. l \<noteq> LGo i c"
    and ow: "owed (view (d_store d)) (d_procs d) k"
  shows "owed (view (d_store d')) (d_procs d') k"
proof -
  have b: "invar (d_store d)" "clock_ok (d_now d)" using inv by (simp_all add: dinv_def)
  have "pending (view (d_store d)) k \<Longrightarrow> pending (view (d_store d')) k" using st l
  proof (cases rule: dstep.cases)
    case (adopt repo name)
    then show "pending (view (d_store d)) k \<Longrightarrow> ?thesis" using adopt_spec [OF b refl]
      by (auto simp: Adopt_run_def pending_def spec_adopt_def split: option.splits)
  qed (auto simp: Enqueue_call_def SetRouter_def Let_def)
  moreover have "set (d_procs d) \<subseteq> set (d_procs d')" using st l
    by (cases rule: dstep.cases) (auto simp: Enqueue_call_def SetRouter_def Adopt_run_def Let_def)
  ultimately show ?thesis using ow by (auto simp: owed_def)
qed

lemma dstep_frame:
  assumes "dstep ops match d l d'" "l \<noteq> LCancel" "\<And>r. l \<noteq> LSetRouter r"
  shows "d_cancelled d' = d_cancelled d \<and> d_router d' = d_router d"
  using assms
  by (cases rule: dstep.cases) (auto simp: Enqueue_call_def Adopt_run_def Let_def dest: go_step_frame)

lemma owed_served:
  assumes "dsteps ops match clock_ok d ls d'" and "dinv stale d" and "k \<notin> stale"
    and "owed (view (d_store d)) (d_procs d) k" and "\<not> d_cancelled d"
    and "LCancel \<notin> set ls" and "\<And>r. LSetRouter r \<notin> set ls"
    and route: "\<And>repo. Key repo = k \<Longrightarrow> \<not> route_Disabled (Route_of match (d_router d) (repo_FullName repo))"
  shows "owed (view (d_store d')) (d_procs d') k \<or>
    (\<exists>ls1 i c ls2 d1 ev ex. ls = ls1 @ LGo i c # ls2 \<and> dsteps ops match clock_ok d ls1 d1
       \<and> i < length (d_procs d1) \<and> d_procs d1 ! i = Starting ev ex \<and> Key (ev_Repo ev) = k)"
  using assms
proof (induction rule: dsteps.induct)
  case (no_steps d)
  then show ?case by blast
next
  case (more_steps d l d1 ls d2)
  show ?case
  proof (cases "\<exists>i c ev ex. l = LGo i c \<and> d_procs d ! i = Starting ev ex \<and> Key (ev_Repo ev) = k")
    case True
    then obtain i c ev ex where "l = LGo i c" "d_procs d ! i = Starting ev ex" "Key (ev_Repo ev) = k" by blast
    with more_steps.hyps(1) dsteps.no_steps [of ops match clock_ok d] show ?thesis
      by (intro disjI2 exI [of _ "[]"] exI [of _ i] exI [of _ c] exI [of _ ls] exI [of _ d]
          exI [of _ ev] exI [of _ ex]) auto
  next
    case False
    have "owed (view (d_store d1)) (d_procs d1) k"
    proof (cases "\<exists>i c. l = LGo i c")
      case True
      then obtain i c where l: "l = LGo i c" by blast
      with more_steps.hyps(1) obtain p new d'' where go: "i < length (d_procs d)"
        "go_step ops match c (d_procs d ! i) d = Some (p, new, d'')"
        "d1 = d''\<lparr>d_procs := (d_procs d)[i := p] @ new\<rparr>" by auto
      have "owed (view (d_store d'')) ((d_procs d)[i := p] @ new) k"
        by (rule owed_go [OF more_steps.prems(1,2) go(1,2) more_steps.prems(3,4,7)]) (use False l in blast)+
      with go(3) show ?thesis by simp
    qed (use owed_env [OF more_steps.prems(1) more_steps.hyps(1)] more_steps.prems(3) in blast)
    moreover have "d_cancelled d1 = d_cancelled d \<and> d_router d1 = d_router d"
      using dstep_frame [OF more_steps.hyps(1)] more_steps.prems(5,6) by (metis list.set_intros(1))
    ultimately have "owed (view (d_store d2)) (d_procs d2) k \<or>
      (\<exists>ls1 i c ls2 d3 ev ex. ls = ls1 @ LGo i c # ls2 \<and> dsteps ops match clock_ok d1 ls1 d3
       \<and> i < length (d_procs d3) \<and> d_procs d3 ! i = Starting ev ex \<and> Key (ev_Repo ev) = k)"
      using more_steps.IH dinv_dstep [OF more_steps.prems(1) more_steps.hyps(1,2)] more_steps.prems by simp
    then show ?thesis
    proof
      assume "\<exists>ls1 i c ls2 d3 ev ex. ls = ls1 @ LGo i c # ls2 \<and> dsteps ops match clock_ok d1 ls1 d3
       \<and> i < length (d_procs d3) \<and> d_procs d3 ! i = Starting ev ex \<and> Key (ev_Repo ev) = k"
      then obtain ls1 i c ls2 d3 ev ex where s: "ls = ls1 @ LGo i c # ls2" "dsteps ops match clock_ok d1 ls1 d3"
       "i < length (d_procs d3)" "d_procs d3 ! i = Starting ev ex" "Key (ev_Repo ev) = k" by blast
      then show ?thesis using dsteps.more_steps [OF more_steps.hyps(1,2) s(2)]
        by (intro disjI2 exI [of _ "l # ls1"] exI [of _ i] exI [of _ c] exI [of _ ls2] exI [of _ d3]
            exI [of _ ev] exI [of _ ex]) auto
    qed blast
  qed
qed

lemma not_owed_done: "\<forall>p \<in> set ps. p = Done \<Longrightarrow> \<not> owed v ps k"
  by (auto simp: owed_def)

end

section \<open>Debounce\<close>

text \<open>\<open>not_before t now p\<close>: the goroutine has not left the debounce before the instant \<open>t\<close>.\<close>

fun not_before :: "go_time \<Rightarrow> go_time \<Rightarrow> proc \<Rightarrow> bool" where
  "not_before t now (Debouncing ev ex t') = (t \<le> t')"
| "not_before t now (Acquiring ev ex) = (t \<le> now)"
| "not_before t now (Starting ev ex) = (t \<le> now)"
| "not_before t now (Launching ev ex) = (t \<le> now)"
| "not_before t now (Executing ev ex start) = (t \<le> start)"
| "not_before t now (Finishing repo reason name start err tok) = (t \<le> start)"
| "not_before t now (Recording repo reason name start err result tok) = (t \<le> start)"
| "not_before t now (Releasing repo tok) = True"
| "not_before t now (Reenqueue repo tok) = True"
| "not_before t now (ReCall ev ex tok) = True"
| "not_before t now (Exiting tok) = True"
| "not_before t now Done = True"
| "not_before t now p = False"

lemma not_before_mono: "not_before t now p \<Longrightarrow> now \<le> now' \<Longrightarrow> not_before t now' p"
  by (cases p) auto

lemma not_before_go:
  "go_step ops match c p d = Some (p', new, d') \<Longrightarrow> not_before t (d_now d) p \<Longrightarrow> not_before t (d_now d') p'"
  by (cases p; cases c) (auto simp: go_step_defs split: go_step_splits)

lemma not_before_dstep:
  assumes "dstep ops match d l d'" and "i < length (d_procs d)" and "not_before t (d_now d) (d_procs d ! i)"
  shows "i < length (d_procs d') \<and> not_before t (d_now d') (d_procs d' ! i)"
  using assms
proof (cases rule: dstep.cases)
  case (tick dt)
  with assms(2,3) show ?thesis using not_before_mono [of t "d_now d" _ "d_now d + dt"] by simp
next
  case (go j c p new d'')
  with assms(2,3) show ?thesis
    using not_before_go [OF go(4)] go_step_frame [OF go(4)] by (cases "i = j") (auto simp: nth_append)
qed (auto simp: Enqueue_call_def Adopt_run_def SetRouter_def Let_def nth_append)

lemma dstep_now_opts:
  "dstep ops match d l d' \<Longrightarrow> d_now d \<le> d_now d' \<and> d_opts d' = d_opts d"
  by (cases rule: dstep.cases)
    (auto simp: Enqueue_call_def Adopt_run_def SetRouter_def Let_def dest: go_step_frame)

lemma dsteps_opts: "dsteps ops match clock_ok d ls d' \<Longrightarrow> d_opts d' = d_opts d"
proof (induction rule: dsteps.induct)
  case (more_steps d l d1 ls d2)
  with dstep_now_opts [OF more_steps.hyps(1)] show ?case by simp
qed simp

text \<open>A goroutine that \<open>Enqueue\<close> started at \<open>t0\<close>, before and after it reads the clock.\<close>

lemma debounce_dstep:
  assumes "dstep ops match d l d'"
    and "i < length (d_procs d) \<and> (d_procs d ! i = Spawned ev ex \<or>
        not_before (t0 + opt_Debounce o0) (d_now d) (d_procs d ! i)) \<and> t0 \<le> d_now d \<and> d_opts d = o0"
  shows "i < length (d_procs d') \<and> (d_procs d' ! i = Spawned ev ex \<or>
        not_before (t0 + opt_Debounce o0) (d_now d') (d_procs d' ! i)) \<and> t0 \<le> d_now d' \<and> d_opts d' = o0"
proof (cases "d_procs d ! i = Spawned ev ex")
  case False
  with assms(2) not_before_dstep [OF assms(1)] dstep_now_opts [OF assms(1)] show ?thesis by fastforce
next
  case True
  show ?thesis using assms(1)
  proof (cases rule: dstep.cases)
    case (go j c p new d'')
    show ?thesis
    proof (cases "j = i")
      case j: True
      with go True have "p = Debouncing ev ex (d_now d + opt_Debounce (d_opts d)) \<and> d'' = d"
        by (cases c) auto
      with go j assms(2) show ?thesis by (auto simp: nth_append)
    next
      case False
      with go True assms(2) go_step_frame [OF go(4)] show ?thesis by (auto simp: nth_append)
    qed
  qed (use assms(2) True in \<open>auto simp: Enqueue_call_def Adopt_run_def SetRouter_def Let_def nth_append\<close>)
qed

section \<open>Shutdown\<close>

text \<open>The goroutines that the wait group counts: those started by \<open>wg.Go\<close> that have not returned.\<close>

fun in_wg :: "proc \<Rightarrow> bool" where
  "in_wg (EnqCall ev ex) = False"
| "in_wg Done = False"
| "in_wg p = True"

text \<open>
  \<open>Shutdown(ctx)\<close> returns through either branch of its \<open>select\<close>, each as soon as it is ready;
  \<open>ctx_err\<close> is \<open>ctx.Err()\<close>, \<^const>\<open>None\<close> while the context is live.
\<close>

inductive Shutdown :: "error option \<Rightarrow> 's dispatcher \<Rightarrow> error option \<Rightarrow> 's dispatcher \<Rightarrow> bool" where
  waited: "list_all (\<lambda>p. \<not> in_wg p) (d_procs d) \<Longrightarrow> Shutdown ctx_err d None (d\<lparr>d_cancelled := True\<rparr>)"
| expired: "Shutdown (Some e) d (Some e) (d\<lparr>d_cancelled := True\<rparr>)"

inductive_simps Shutdown_None: "Shutdown ctx_err d None d'"
inductive_simps Shutdown_Some: "Shutdown ctx_err d (Some e) d'"

section \<open>The two stores\<close>

interpretation md: dispatch_store memory_ops memory_view mem_handles "\<lambda>_. True" "\<lambda>_. True" match
  for match
  by unfold_locales

sublocale redis_client \<subseteq> rd: dispatch_store "redis_ops R" "repo_view val" "handle_view val"
    "redis_inv val z" "redis_clock_ok z" match
  for match
  by unfold_locales

end
