(* ===== verification/Dispatch_Properties.thy ===== *)
theory Dispatch_Properties
  imports Dispatcher
begin

text \<open>
  The properties of the dispatcher, for the memory store and for the Redis store, with
  concrete schedules as witnesses. The lemmas they rest on are those of the locale
  \<open>dispatch_store\<close>, through its interpretation on the memory store and through the Redis
  client's sublocale.
\<close>

section \<open>Running a schedule\<close>

fun exec_label ::
  "'s store_ops \<Rightarrow> (string \<Rightarrow> string \<Rightarrow> bool option) \<Rightarrow> label \<Rightarrow> 's dispatcher \<Rightarrow> 's dispatcher option" where
  "exec_label ops match (LEnqueue ev) d = Some (Enqueue_call match ev d)"
| "exec_label ops match (LAdopt repo name) d = Some (Adopt_run ops repo name d)"
| "exec_label ops match (LSetRouter r) d = Some (SetRouter r d)"
| "exec_label ops match LCancel d = Some (d\<lparr>d_cancelled := True\<rparr>)"
| "exec_label ops match (LTick dt) d = (if 0 \<le> dt then Some (d\<lparr>d_now := d_now d + dt\<rparr>) else None)"
| "exec_label ops match (LGo i c) d =
     (if i < length (d_procs d) then
        (case go_step ops match c (d_procs d ! i) d of
           None \<Rightarrow> None
         | Some (p, new, d') \<Rightarrow> Some (d'\<lparr>d_procs := (d_procs d)[i := p] @ new\<rparr>))
      else None)"

fun exec_labels ::
  "'s store_ops \<Rightarrow> (string \<Rightarrow> string \<Rightarrow> bool option) \<Rightarrow> label list \<Rightarrow> 's dispatcher \<Rightarrow> 's dispatcher option" where
  "exec_labels ops match [] d = Some d"
| "exec_labels ops match (l # ls) d = Option.bind (exec_label ops match l d) (exec_labels ops match ls)"

lemma exec_label_iff: "exec_label ops match l d = Some d' \<longleftrightarrow> dstep ops match d l d'"
proof (cases l)
  case (LGo i c)
  then show ?thesis by (auto split: option.splits if_splits)
qed (auto intro: dstep.intros elim!: dstep_cases split: if_splits)

text \<open>The labels whose environment condition is void, with or without the passing of time.\<close>

fun plain :: "bool \<Rightarrow> label \<Rightarrow> bool" where
  "plain t (LAdopt repo name) = False"
| "plain t (LSetRouter r) = False"
| "plain t (LTick dt) = t"
| "plain t l = True"

lemma exec_labels_dsteps:
  "exec_labels ops match ls d = Some d' \<Longrightarrow> list_all (plain t) ls \<Longrightarrow> (t \<Longrightarrow> clock_ok = (\<lambda>_. True)) \<Longrightarrow>
   dsteps ops match clock_ok d ls d'"
proof (induction ls arbitrary: d)
  case Nil
  then show ?case by (simp add: dsteps.no_steps)
next
  case (Cons l ls)
  then obtain d1 where d1: "exec_label ops match l d = Some d1" "exec_labels ops match ls d1 = Some d'"
    by (auto split: bind_splits)
  moreover have "env_ok ops clock_ok l d" using Cons.prems(2,3) by (cases l) auto
  ultimately show ?case using Cons by (auto simp: exec_label_iff intro: dsteps.more_steps)
qed

section \<open>A sample dispatcher\<close>

definition sample_opts :: options where
  "sample_opts = \<lparr>opt_Debounce = 30 * second, opt_RunTimeout = hour, opt_MaxConcurrent = 1\<rparr>"

definition sample_d :: "memory dispatcher" where
  "sample_d = \<lparr>d_store = NewMemory,
     d_router = (case NewRouter sample_rules sample_executors of Inr r \<Rightarrow> r | Inl e \<Rightarrow> \<lparr>rules = []\<rparr>),
     d_opts = sample_opts, d_sem = 0, d_cancelled = False, d_procs = [], d_now = 0,
     d_metrics = Some metrics_New, d_hist = Some (history_New 2)\<rparr>"

definition sample_repo :: Repo where
  "sample_repo = \<lparr>repo_Platform = ''gl'', repo_FullName = ''top/platform/api''\<rparr>"

definition sample_event :: Event where
  "sample_event = \<lparr>ev_Repo = sample_repo, ev_Reason = ReasonPush\<rparr>"

text \<open>A push, its debounce and its start; a second push while the run is in flight.\<close>

definition sample_start :: "label list" where
  "sample_start = [LEnqueue sample_event, LGo 0 Proceed, LGo 1 Proceed, LTick (30 * second),
     LGo 1 Proceed, LGo 1 Proceed, LGo 1 Proceed, LGo 1 Proceed]"

definition sample_second :: "label list" where
  "sample_second = [LEnqueue sample_event, LGo 2 Proceed]"

text \<open>The first run returns, finishes and requeues; the rerun runs to its end.\<close>

definition sample_rerun :: "label list" where
  "sample_rerun = [LGo 1 (Return None), LGo 1 Proceed, LGo 1 Proceed, LGo 1 Proceed, LGo 1 Proceed,
     LGo 1 Proceed, LGo 1 Proceed, LGo 3 Proceed, LTick (30 * second), LGo 3 Proceed, LGo 3 Proceed,
     LGo 3 Proceed, LGo 3 Proceed, LGo 3 (Return None), LGo 3 Proceed, LGo 3 Proceed, LGo 3 Proceed,
     LGo 3 Proceed]"

lemma sample_initial: "initial sample_d"
proof -
  obtain r where r: "NewRouter sample_rules sample_executors = Inr r"
    by (simp add: NewRouter_Inr sample_rules_def sample_executors_def)
  then have "NewDispatcher NewMemory r sample_opts (Some metrics_New) (Some (history_New 2)) 0 = Some sample_d"
    by (simp add: NewDispatcher_def sample_d_def sample_opts_def)
  with r show ?thesis unfolding initial_def by blast
qed

lemma sample_procs:
  "map_option d_procs (exec_labels memory_ops sample_match (sample_start @ sample_second) sample_d)
     = Some [Done, Executing sample_event (Some \<lparr>ex_Name = ''k8s''\<rparr>) (30 * second), Done]"
  by code_simp

lemma sample_done:
  "map_option d_procs (exec_labels memory_ops sample_match (sample_start @ sample_second @ sample_rerun) sample_d)
     = Some [Done, Done, Done, Done]"
  by code_simp

lemma sample_running:
  "\<exists>d. dsteps memory_ops sample_match (\<lambda>_. True) sample_d (sample_start @ sample_second) d
     \<and> d_procs d = [Done, Executing sample_event (Some \<lparr>ex_Name = ''k8s''\<rparr>) (30 * second), Done]"
proof -
  obtain d where d: "exec_labels memory_ops sample_match (sample_start @ sample_second) sample_d = Some d"
    "d_procs d = [Done, Executing sample_event (Some \<lparr>ex_Name = ''k8s''\<rparr>) (30 * second), Done]"
    using sample_procs unfolding map_option_eq_Some by blast
  have "list_all (plain True) (sample_start @ sample_second)" by (simp add: sample_start_def sample_second_def)
  with exec_labels_dsteps [OF d(1)] d(2) show ?thesis by blast
qed

section \<open>Invariants of the reachable states\<close>

lemma memory_dinv:
  assumes "initial d0" and "dsteps memory_ops match (\<lambda>_. True) d0 ls d"
  shows "md.dinv (dom (memory_view (d_store d0))) d"
  by (rule md.dinv_reachable [OF assms(1) TrueI TrueI assms(2)])

context redis_client
begin

lemma redis_exclusion:
  assumes "initial d0" and "redis_inv val z (d_store d0)" and "redis_clock_ok z (d_now d0)"
    and "dsteps (redis_ops R) match (redis_clock_ok z) d0 ls d"
    and "i < length (d_procs d)" and "lock_on k (lock_of (d_procs d ! i))"
  shows "(\<forall>j < length (d_procs d). lock_on k (lock_of (d_procs d ! j)) \<longrightarrow> j = i)
    \<and> (\<exists>st. repo_view val (d_store d) k = Some st
         \<and> State st = (if lock_of (d_procs d ! i) = LRunning k then StateRunning else StateQueued))"
proof -
  note inv = rd.dinv_reachable [OF assms(1-4)]
  from rd.mutual_exclusion [OF inv assms(5)] assms(6) rd.owner_entry [OF inv assms(5)]
  show ?thesis by (cases "lock_of (d_procs d ! i)") auto
qed

end

section \<open>Safety\<close>



text \<open>
  The same with the Redis store over any server with the documented command behaviour, the
  store the deployment with persistence uses.
\<close>

theorem redis_dispatcher_mutual_exclusion:
  assumes "redis_client R val z" and "initial d0"
    and "redis_inv val z (d_store d0)" and "redis_clock_ok z (d_now d0)"
    and "dsteps (redis_ops R) match (redis_clock_ok z) d0 ls d"
    and "i < length (d_procs d)" and "lock_on k (lock_of (d_procs d ! i))"
  shows "(\<forall>j < length (d_procs d). lock_on k (lock_of (d_procs d ! j)) \<longrightarrow> j = i)
    \<and> (\<exists>st. repo_view val (d_store d) k = Some st
         \<and> State st = (if lock_of (d_procs d ! i) = LRunning k then StateRunning else StateQueued))"
  using redis_client.redis_exclusion [OF assms] .

text \<open>The sample dispatcher over an empty reference server.\<close>

definition sample_rd :: "rdb redisStore dispatcher" where
  "sample_rd = \<lparr>d_store = sample_redis [], d_router = d_router sample_d, d_opts = sample_opts, d_sem = 0,
     d_cancelled = False, d_procs = [], d_now = 0, d_metrics = None, d_hist = None\<rparr>"

lemma sample_rd_initial: "initial sample_rd"
proof -
  obtain r where r: "NewRouter sample_rules sample_executors = Inr r"
    by (simp add: NewRouter_Inr sample_rules_def sample_executors_def)
  then have "NewDispatcher (sample_redis []) r sample_opts None None 0 = Some sample_rd"
    by (simp add: NewDispatcher_def sample_d_def sample_rd_def sample_opts_def)
  with r show ?thesis unfolding initial_def by blast
qed

lemma sample_rd_ok: "redis_inv ref_val 0 (d_store sample_rd) \<and> redis_clock_ok 0 (d_now sample_rd)"
proof -
  have "glob_free ''p:''" by code_simp
  moreover have "year_of 0 0 \<le> 9999" by code_simp
  ultimately show ?thesis
    by (simp add: sample_rd_def redis_inv_def redis_clock_ok_def sample_redis_def repo_ok_def handle_ok_def
        ref_val_def db_get_def)
qed

lemma sample_rd_procs:
  "map_option (\<lambda>d. map lock_of (d_procs d))
     (exec_labels (redis_ops ref_redis) sample_match [LEnqueue sample_event, LGo 0 Proceed] sample_rd)
   = Some [Free, LQueued (Key sample_repo)]"
  by code_simp

theorem redis_dispatcher_mutual_exclusion_witness:
  "\<exists>d. dsteps (redis_ops ref_redis) sample_match (redis_clock_ok 0) sample_rd [LEnqueue sample_event, LGo 0 Proceed] d
     \<and> (\<exists>st. repo_view ref_val (d_store d) (Key sample_repo) = Some st \<and> State st = StateQueued)"
proof -
  obtain d where d: "exec_labels (redis_ops ref_redis) sample_match [LEnqueue sample_event, LGo 0 Proceed] sample_rd = Some d"
    and l: "map lock_of (d_procs d) = [Free, LQueued (Key sample_repo)]"
    using sample_rd_procs unfolding map_option_eq_Some by (elim exE conjE) (rule that)
  have ds: "dsteps (redis_ops ref_redis) sample_match (redis_clock_ok 0) sample_rd
      [LEnqueue sample_event, LGo 0 Proceed] d"
    by (rule exec_labels_dsteps [OF d, where t = False]) simp_all
  have "1 < length (d_procs d)" and "lock_of (d_procs d ! 1) = LQueued (Key sample_repo)"
    using arg_cong [OF l, of length] arg_cong [OF l, of "\<lambda>ls. ls ! 1"] by simp_all
  with redis_dispatcher_mutual_exclusion [OF refc.redis_client_axioms sample_rd_initial _ _ ds, of 1 "Key sample_repo"]
    sample_rd_ok ds show ?thesis by (simp only: lock_on.simps lock.simps if_False simp_thms) blast
qed



section \<open>Liveness\<close>

text \<open>The schedule \<open>ls\<close> from \<open>d\<close> has a step that starts a run of the repository \<open>k\<close>.\<close>

abbreviation starts_in :: "(string \<Rightarrow> string \<Rightarrow> bool option) \<Rightarrow> memory dispatcher \<Rightarrow> label list \<Rightarrow> string \<Rightarrow> bool" where
  "starts_in match d ls k \<equiv> \<exists>ls1 j c ls2 d3 ev ex. ls = ls1 @ LGo j c # ls2 \<and> dsteps memory_ops match (\<lambda>_. True) d ls1 d3
     \<and> j < length (d_procs d3) \<and> d_procs d3 ! j = Starting ev ex \<and> Key (ev_Repo ev) = k"

lemma request_served:
  assumes inv: "md.dinv stale d" "k \<notin> stale"
    and call: "i < length (d_procs d)" "enq_event (d_procs d ! i) = Some ev" "Key (ev_Repo ev) = k"
    and queue: "dstep memory_ops match d (LGo i Proceed) d1"
    and rest: "dsteps memory_ops match (\<lambda>_. True) d1 ls d2"
      "\<not> d_cancelled d" "LCancel \<notin> set ls" "\<And>r. LSetRouter r \<notin> set ls"
      "\<And>repo. Key repo = k \<Longrightarrow> \<not> route_Disabled (Route_of match (d_router d) (repo_FullName repo))"
    and ended: "list_all (\<lambda>p. p = Done) (d_procs d2)"
  shows "starts_in match d1 ls k"
proof -
  obtain p new d' where go: "go_step memory_ops match Proceed (d_procs d ! i) d = Some (p, new, d')"
    and d1: "d1 = d'\<lparr>d_procs := (d_procs d)[i := p] @ new\<rparr>" using queue by auto
  have "owed (memory_view (d_store d1)) (d_procs d1) k"
    using md.owed_after_queue [OF inv call(1) go call(2,3)] d1 by simp
  moreover have "d_cancelled d1 = d_cancelled d" "d_router d1 = d_router d"
    using go_step_frame [OF go] d1 by simp_all
  moreover have "md.dinv stale d1" using md.dinv_go [OF inv(1) call(1) go] d1 by simp
  moreover have "\<not> owed (memory_view (d_store d2)) (d_procs d2) k"
    using ended by (intro md.not_owed_done) (simp add: list_all_iff)
  ultimately show ?thesis using md.owed_served [OF rest(1) _ inv(2) _ _ rest(3,4)] rest(2,5) by simp
qed

text \<open>
  C2. No request is lost. Take any step at which a caller's \<open>Queue\<close> call for the repository
  \<open>k\<close> is executed, whatever its answer (queued, coalesced or deferred), in a process that is
  not cancelled and whose rules enable the repository. Then in every continuation without a
  cancellation or a rule change that ends with all goroutines done, a run of \<open>k\<close> has been
  started after the request: its \<open>StartRun\<close> is a step of the continuation.
\<close>

theorem request_is_followed_by_a_run:
  assumes init: "initial d0" "k \<notin> dom (memory_view (d_store d0))"
    and past: "dsteps memory_ops match (\<lambda>_. True) d0 ls0 d"
    and call: "i < length (d_procs d)" "enq_event (d_procs d ! i) = Some ev" "Key (ev_Repo ev) = k"
    and queue: "dstep memory_ops match d (LGo i Proceed) d1"
    and rest: "dsteps memory_ops match (\<lambda>_. True) d1 ls d2"
      "\<not> d_cancelled d" "LCancel \<notin> set ls" "\<And>r. LSetRouter r \<notin> set ls"
      "\<And>repo. Key repo = k \<Longrightarrow> \<not> route_Disabled (Route_of match (d_router d) (repo_FullName repo))"
    and ended: "list_all (\<lambda>p. p = Done) (d_procs d2)"
  shows "\<exists>ls1 j c ls2 d3 ev' ex. ls = ls1 @ LGo j c # ls2 \<and> dsteps memory_ops match (\<lambda>_. True) d1 ls1 d3
    \<and> j < length (d_procs d3) \<and> d_procs d3 ! j = Starting ev' ex \<and> Key (ev_Repo ev') = k"
  by (rule request_served [OF memory_dinv [OF init(1) past] init(2) call queue rest ended])

lemma dstep_other:
  assumes "dstep ops match d l d'" and "i < length (d_procs d)" and "\<forall>c. l \<noteq> LGo i c"
  shows "i < length (d_procs d') \<and> d_procs d' ! i = d_procs d ! i"
  using assms
  by (cases rule: dstep.cases) (auto simp: Enqueue_call_def Adopt_run_def SetRouter_def Let_def nth_append)

lemma starts_in_Cons:
  assumes "dstep memory_ops match d l d1" and "env_ok memory_ops (\<lambda>_. True) l d" and "starts_in match d1 ls k"
  shows "starts_in match d (l # ls) k"
proof -
  from assms(3) obtain ls1 j c ls2 d3 ev ex where s: "ls = ls1 @ LGo j c # ls2" "dsteps memory_ops match (\<lambda>_. True) d1 ls1 d3"
    "j < length (d_procs d3)" "d_procs d3 ! j = Starting ev ex" "Key (ev_Repo ev) = k" by blast
  show ?thesis
    by (rule exI [of _ "l # ls1"], rule exI [of _ j], rule exI [of _ c], rule exI [of _ ls2], rule exI [of _ d3],
        rule exI [of _ ev], rule exI [of _ ex])
      (use s dsteps.more_steps [OF assms(1,2) s(2)] in simp)
qed

text \<open>A pending call of \<open>Enqueue\<close> is served as well: it has to execute its \<open>Queue\<close> call before all are done.\<close>

lemma call_served:
  assumes "dsteps memory_ops match (\<lambda>_. True) d ls d2" and "md.dinv stale d" and "k \<notin> stale"
    and "i < length (d_procs d)" and "d_procs d ! i = EnqCall ev ex" and "Key (ev_Repo ev) = k"
    and "\<not> d_cancelled d" and "LCancel \<notin> set ls" and "\<And>r. LSetRouter r \<notin> set ls"
    and "\<And>repo. Key repo = k \<Longrightarrow> \<not> route_Disabled (Route_of match (d_router d) (repo_FullName repo))"
    and "list_all (\<lambda>p. p = Done) (d_procs d2)"
  shows "starts_in match d ls k"
  using assms
proof (induction rule: dsteps.induct)
  case (no_steps d)
  then show ?case by (auto simp: list_all_length)
next
  case (more_steps d l d1 ls d2)
  have "starts_in match d1 ls k"
  proof (cases "\<exists>c. l = LGo i c")
    case True
    then obtain c where l: "l = LGo i c" by blast
    with more_steps.hyps(1) more_steps.prems(4) have "c = Proceed" by (cases c) auto
    with l more_steps.hyps(1) have queue: "dstep memory_ops match d (LGo i Proceed) d1" by simp
    show ?thesis
      using request_served [OF more_steps.prems(1-3) _ more_steps.prems(5) queue more_steps.hyps(3) more_steps.prems(6) _ _ _ more_steps.prems(10)]
        more_steps.prems(4,7,8,9) by auto
  next
    case False
    have frame: "d_cancelled d1 = d_cancelled d \<and> d_router d1 = d_router d"
      using md.dstep_frame [OF more_steps.hyps(1)] more_steps.prems(7,8) by (metis list.set_intros(1))
    have i: "i < length (d_procs d1) \<and> d_procs d1 ! i = d_procs d ! i"
      using dstep_other [OF more_steps.hyps(1) more_steps.prems(3)] False by blast
    have "md.dinv stale d1" by (rule md.dinv_dstep [OF more_steps.prems(1) more_steps.hyps(1,2)])
    with more_steps.IH more_steps.prems frame i show ?thesis by simp
  qed
  then show ?case by (rule starts_in_Cons [OF more_steps.hyps(1,2)])
qed

text \<open>The second push of the sample schedule, deferred while the first run is in flight.\<close>

definition sample_pushed :: "label list" where
  "sample_pushed = sample_start @ [LEnqueue sample_event]"

lemma sample_pushed_exec:
  "case exec_labels memory_ops sample_match sample_pushed sample_d of None \<Rightarrow> False
   | Some d \<Rightarrow> length (d_procs d) = 3 \<and> enq_event (d_procs d ! 2) = Some sample_event \<and> \<not> d_cancelled d
       \<and> list_all (\<lambda>n. \<not> route_Disabled (Route_of sample_match (d_router d) (drop n (Key sample_repo))))
           [0..<Suc (length (Key sample_repo))]
       \<and> (case exec_label memory_ops sample_match (LGo 2 Proceed) d of None \<Rightarrow> False
          | Some d1 \<Rightarrow> (case exec_labels memory_ops sample_match sample_rerun d1 of None \<Rightarrow> False
              | Some d2 \<Rightarrow> list_all (\<lambda>p. p = Done) (d_procs d2)))"
  by code_simp

lemma Key_suffix: "Key repo = k \<Longrightarrow> repo_FullName repo = drop (Suc (length (repo_Platform repo))) k
    \<and> Suc (length (repo_Platform repo)) < Suc (length k)"
  by (auto simp: Key_def)

theorem request_is_followed_by_a_run_witness:
  "\<exists>d1 d2 ls1 j c ls2 d3 ev' ex. dsteps memory_ops sample_match (\<lambda>_. True) d1 sample_rerun d2
    \<and> sample_rerun = ls1 @ LGo j c # ls2 \<and> dsteps memory_ops sample_match (\<lambda>_. True) d1 ls1 d3
    \<and> d_procs d3 ! j = Starting ev' ex \<and> Key (ev_Repo ev') = Key sample_repo"
proof -
  obtain d d1 d2 where d: "exec_labels memory_ops sample_match sample_pushed sample_d = Some d"
      "length (d_procs d) = 3" "enq_event (d_procs d ! 2) = Some sample_event" "\<not> d_cancelled d"
      "list_all (\<lambda>n. \<not> route_Disabled (Route_of sample_match (d_router d) (drop n (Key sample_repo))))
           [0..<Suc (length (Key sample_repo))]"
    and d1: "exec_label memory_ops sample_match (LGo 2 Proceed) d = Some d1"
    and d2: "exec_labels memory_ops sample_match sample_rerun d1 = Some d2" "list_all (\<lambda>p. p = Done) (d_procs d2)"
    using sample_pushed_exec by (fastforce split: option.splits)
  have past: "dsteps memory_ops sample_match (\<lambda>_. True) sample_d sample_pushed d"
    by (rule exec_labels_dsteps [OF d(1), where t = True]) (simp_all add: sample_pushed_def sample_start_def)
  have rest: "dsteps memory_ops sample_match (\<lambda>_. True) d1 sample_rerun d2"
    by (rule exec_labels_dsteps [OF d2(1), where t = True]) (simp_all add: sample_rerun_def)
  have route: "\<not> route_Disabled (Route_of sample_match (d_router d) (repo_FullName repo))"
    if "Key repo = Key sample_repo" for repo
    using d(5) Key_suffix [OF that] by (metis (no_types, lifting) atLeastLessThan_iff le0 list_all_iff set_upt)
  have "k \<notin> dom (memory_view (d_store sample_d))" for k
    by (simp add: sample_d_def memory_view_New)
  from request_is_followed_by_a_run [OF sample_initial this past _ d(3) _
      exec_label_iff [THEN iffD1, OF d1] rest d(4) _ _ _ d2(2), of "Key sample_repo"] rest route d(2)
  show ?thesis by (fastforce simp: sample_event_def sample_rerun_def)
qed

text \<open>
  C7. Every schedule settles: the goroutines make at most 13 steps per call of \<open>Enqueue\<close> and 20
  per adopted run, the deferred reruns included, so without new requests the number of steps
  left is bounded by the work of the state.
\<close>

theorem goroutine_steps_bounded:
  assumes "initial d0" and "dsteps memory_ops match (\<lambda>_. True) d0 ls d"
  shows "length (filter (\<lambda>l. \<exists>i c. l = LGo i c) ls) + work (memory_view (d_store d)) (d_procs d)
    \<le> 13 * length (filter (\<lambda>l. \<exists>ev. l = LEnqueue ev) ls) + 20 * length (filter (\<lambda>l. \<exists>r n. l = LAdopt r n) ls)"
  using md.steps_bounded [OF assms(2) md.dinv_initial [OF assms(1) TrueI TrueI]] initialD [OF assms(1)]
  by (simp add: work_def)

text \<open>
  C3. No deadlock and no panic: with a positive concurrency limit, whenever some goroutine is
  not done and the debounce timers have expired, some goroutine can step (a running executor
  by returning). So the semaphore, the store and the history never wedge the dispatcher, and
  when nothing can step any more every goroutine is done, no token is held and no repository
  is locked beyond the entries the store had at the start.
\<close>

theorem dispatcher_never_stuck:
  assumes "initial d0" and "dsteps memory_ops match (\<lambda>_. True) d0 ls d"
    and "0 < opt_MaxConcurrent (d_opts d)"
    and "\<And>ev ex t. Debouncing ev ex t \<in> set (d_procs d) \<Longrightarrow> t \<le> d_now d"
  shows "(\<exists>i c d'. dstep memory_ops match d (LGo i c) d')
    \<or> (list_all (\<lambda>p. p = Done) (d_procs d) \<and> d_sem d = 0
        \<and> dom (memory_view (d_store d)) \<subseteq> dom (memory_view (d_store d0)))"
proof (cases "list_all (\<lambda>p. p = Done) (d_procs d)")
  case True
  then have "\<forall>p \<in> set (d_procs d). p = Done" by (simp add: list_all_iff)
  from True md.quiescent [OF memory_dinv [OF assms(1,2)] this] show ?thesis by blast
next
  case False
  then have "\<exists>p \<in> set (d_procs d). p \<noteq> Done" by (auto simp: list_all_iff)
  note busy = this
  have "\<exists>i c d'. dstep memory_ops match d (LGo i c) d'"
    by (rule md.progress [OF memory_dinv [OF assms(1,2)] assms(3) _ busy]) (rule assms(4))
  then show ?thesis by blast
qed

lemma sample_finished:
  "\<exists>d. dsteps memory_ops sample_match (\<lambda>_. True) sample_d (sample_start @ sample_second @ sample_rerun) d
     \<and> d_procs d = [Done, Done, Done, Done]"
proof -
  obtain d where d: "exec_labels memory_ops sample_match (sample_start @ sample_second @ sample_rerun) sample_d = Some d"
    "d_procs d = [Done, Done, Done, Done]"
    using sample_done unfolding map_option_eq_Some by blast
  have "list_all (plain True) (sample_start @ sample_second @ sample_rerun)"
    by (simp add: sample_start_def sample_second_def sample_rerun_def)
  with exec_labels_dsteps [OF d(1)] d(2) show ?thesis by blast
qed

theorem goroutine_steps_bounded_witness:
  "length (filter (\<lambda>l. \<exists>i c. l = LGo i c) (sample_start @ sample_second @ sample_rerun)) = 24
     \<and> length (filter (\<lambda>l. \<exists>i c. l = LGo i c) (sample_start @ sample_second @ sample_rerun)) \<le> 13 * 2"
proof -
  obtain d where d: "dsteps memory_ops sample_match (\<lambda>_. True) sample_d (sample_start @ sample_second @ sample_rerun) d"
    using sample_finished by blast
  have "length (filter (\<lambda>l. \<exists>ev. l = LEnqueue ev) (sample_start @ sample_second @ sample_rerun)) = 2"
    "length (filter (\<lambda>l. \<exists>r n. l = LAdopt r n) (sample_start @ sample_second @ sample_rerun)) = 0"
    "length (filter (\<lambda>l. \<exists>i c. l = LGo i c) (sample_start @ sample_second @ sample_rerun)) = 24"
    by (simp_all add: sample_start_def sample_second_def sample_rerun_def)
  with goroutine_steps_bounded [OF sample_initial d] show ?thesis by linarith
qed

theorem dispatcher_never_stuck_witness:
  "\<exists>d :: memory dispatcher. d_procs d = [Done, Done, Done, Done] \<and> d_sem d = 0 \<and> dom (memory_view (d_store d)) = {}"
proof -
  obtain d where d: "dsteps memory_ops sample_match (\<lambda>_. True) sample_d (sample_start @ sample_second @ sample_rerun) d"
    and p: "d_procs d = [Done, Done, Done, Done]" using sample_finished by blast
  have opts: "d_opts d = sample_opts"
    using dsteps_opts [OF d] by (simp add: sample_d_def)
  have no: "\<not> dstep memory_ops sample_match d (LGo i c) d'" for i c d'
  proof
    assume "dstep memory_ops sample_match d (LGo i c) d'"
    then have i: "i < 4" "go_step memory_ops sample_match c (d_procs d ! i) d \<noteq> None" by (auto simp: p)
    have "d_procs d ! i = Done" using i(1) unfolding p by (auto simp: less_Suc_eq numeral_eq_Suc)
    with i(2) show False by (cases c) auto
  qed
  have "dom (memory_view (d_store sample_d)) = {}" by (simp add: sample_d_def memory_view_New)
  moreover have "(\<exists>i c d'. dstep memory_ops sample_match d (LGo i c) d') \<or> (list_all (\<lambda>p. p = Done) (d_procs d)
      \<and> d_sem d = 0 \<and> dom (memory_view (d_store d)) \<subseteq> dom (memory_view (d_store sample_d)))"
    by (rule dispatcher_never_stuck [OF sample_initial d]) (simp_all add: opts sample_opts_def p)
  ultimately have "d_sem d = 0 \<and> dom (memory_view (d_store d)) = {}" by (metis no subset_empty)
  with p show ?thesis by blast
qed

section \<open>Debounce, results and shutdown\<close>

text \<open>
  C24. Debounce: a goroutine that \<open>Enqueue\<close> has started at time \<open>t\<close> hands its run to the executor
  no earlier than \<open>t + Debounce\<close>, over any store and under every schedule.
\<close>

theorem run_starts_after_debounce:
  assumes "i < length (d_procs d)" and "d_procs d ! i = Spawned ev ex"
    and "dsteps ops match clock_ok d ls d'" and "d_procs d' ! i = Executing ev' ex' start"
  shows "d_now d + opt_Debounce (d_opts d) \<le> start"
proof -
  let ?t = "d_now d + opt_Debounce (d_opts d)"
  let ?P = "\<lambda>d'. i < length (d_procs d') \<and> (d_procs d' ! i = Spawned ev ex \<or> not_before ?t (d_now d') (d_procs d' ! i))
      \<and> d_now d \<le> d_now d' \<and> d_opts d' = d_opts d"
  have "?P d2" if "dsteps ops match clock_ok d1 ls d2" "?P d1" for d1 d2 ls
    using that
  proof (induction rule: dsteps.induct)
    case (more_steps d1 l d2 ls d3)
    have "?P d2" by (rule debounce_dstep [OF more_steps.hyps(1) more_steps.prems])
    with more_steps.IH show ?case by blast
  qed blast
  from this [OF assms(3)] assms(1,2,4) show ?thesis by auto
qed

lemma sample_debounced:
  "case exec_labels memory_ops sample_match (take 2 sample_start) sample_d of None \<Rightarrow> False
   | Some d \<Rightarrow> length (d_procs d) = 2 \<and> d_procs d ! 1 = Spawned sample_event (Some \<lparr>ex_Name = ''k8s''\<rparr>) \<and> d_now d = 0
       \<and> (case exec_labels memory_ops sample_match (drop 2 sample_start) d of None \<Rightarrow> False
          | Some d' \<Rightarrow> d_procs d' ! 1 = Executing sample_event (Some \<lparr>ex_Name = ''k8s''\<rparr>) (30 * second))"
  by code_simp

theorem run_starts_after_debounce_witness:
  "\<exists>d d'. dsteps memory_ops sample_match (\<lambda>_. True) d (drop 2 sample_start) d'
     \<and> d_procs d ! 1 = Spawned sample_event (Some \<lparr>ex_Name = ''k8s''\<rparr>)
     \<and> d_procs d' ! 1 = Executing sample_event (Some \<lparr>ex_Name = ''k8s''\<rparr>) (30 * second)
     \<and> opt_Debounce (d_opts d) \<le> 30 * second"
proof -
  obtain d d' where d: "length (d_procs d) = 2" "d_procs d ! 1 = Spawned sample_event (Some \<lparr>ex_Name = ''k8s''\<rparr>)" "d_now d = 0"
    and d': "exec_labels memory_ops sample_match (drop 2 sample_start) d = Some d'"
      "d_procs d' ! 1 = Executing sample_event (Some \<lparr>ex_Name = ''k8s''\<rparr>) (30 * second)"
    using sample_debounced by (fastforce split: option.splits)
  have ds: "dsteps memory_ops sample_match (\<lambda>_. True) d (drop 2 sample_start) d'"
    by (rule exec_labels_dsteps [OF d'(1), where t = True]) (simp_all add: sample_start_def)
  have "1 < length (d_procs d)" using d(1) by simp
  from run_starts_after_debounce [OF this d(2) ds d'(2)] d(3) have "opt_Debounce (d_opts d) \<le> 30 * second" by simp
  with ds d(2) d'(2) show ?thesis by blast
qed


text \<open>A run that ended with a wrapped deadline error.\<close>

definition sample_finishing :: "memory dispatcher" where
  "sample_finishing = sample_d\<lparr>d_procs := [Finishing sample_repo ReasonPush ''k8s'' 0
     (Some (Wrapf ''job x: '' DeadlineExceeded)) True]\<rparr>"




section \<open>Accounting\<close>

text \<open>The runs of executor \<open>n\<close> that have been counted as started and not yet as finished.\<close>

fun in_flight :: "string \<Rightarrow> proc \<Rightarrow> bool" where
  "in_flight n (Executing ev ex t) = (\<exists>e. ex = Some e \<and> ex_Name e = n)"
| "in_flight n (Finishing repo reason name t err tok) = (name = n)"
| "in_flight n p = False"

fun adopted :: "proc \<Rightarrow> bool" where
  "adopted (AdoptSpawned repo name) = True"
| "adopted (AdoptWaiting repo name t) = True"
| "adopted p = False"

definition finished_runs :: "Metrics \<Rightarrow> string \<Rightarrow> nat" where
  "finished_runs m n = runsFinished m (n, ''success'') + runsFinished m (n, ''timeout'') + runsFinished m (n, ''failure'')"

definition accounted :: "'s dispatcher \<Rightarrow> bool" where
  "accounted d \<longleftrightarrow> (\<exists>m. d_metrics d = Some m \<and>
     (\<forall>n. runsStarted m n = finished_runs m n + countP (in_flight n) (d_procs d)))
     \<and> (\<forall>p \<in> set (d_procs d). \<not> adopted p)"

lemma finished_runs_RunFinished:
  "finished_runs (RunFinished name (finish_result err) dur m) n = finished_runs m n + (if name = n then 1 else 0)"
  by (auto simp: finished_runs_def RunFinished_def finish_result_def split: option.splits)

lemma finished_runs_RunStarted [simp]: "finished_runs (RunStarted name m) n = finished_runs m n"
  by (simp add: finished_runs_def RunStarted_def)

lemma runsStarted_simps [simp]:
  "runsStarted (RunFinished name r dur m) n = runsStarted m n"
  "runsStarted (RunStarted name m) n = runsStarted m n + (if name = n then 1 else 0)"
  by (auto simp: RunFinished_def RunStarted_def)

lemma go_step_account:
  assumes "go_step ops match c p d = Some (p', new, d')" and "d_metrics d = Some m" and "\<not> adopted p"
  shows "\<exists>m'. d_metrics d' = Some m' \<and> \<not> adopted p' \<and>
    (\<forall>n. runsStarted m' n + finished_runs m n + (if in_flight n p then 1 else 0)
       = runsStarted m n + finished_runs m' n + (if in_flight n p' then 1 else 0))"
proof (cases p)
  case (Finishing repo reason name t err tok)
  with assms show ?thesis
    by (cases c) (auto simp: finish_metrics_def Let_def finished_runs_RunFinished)
qed (use assms in \<open>cases c; auto simp: go_step_defs split: go_step_splits\<close>)+

lemma accounted_dstep:
  assumes "accounted d" and "dstep ops match d l d'" and l: "\<And>r n. l \<noteq> LAdopt r n"
  shows "accounted d'"
  using assms(2)
proof (cases rule: dstep.cases)
  case (go i c p new d'')
  obtain m where m: "d_metrics d = Some m" "\<And>n. runsStarted m n = finished_runs m n + countP (in_flight n) (d_procs d)"
    and na: "\<forall>p \<in> set (d_procs d). \<not> adopted p" using assms(1) by (auto simp: accounted_def)
  have "\<not> adopted (d_procs d ! i)" using na go(3) by simp
  from go_step_account [OF go(4) m(1) this] obtain m' where m': "d_metrics d'' = Some m'" "\<not> adopted p"
    "\<And>n. runsStarted m' n + finished_runs m n + (if in_flight n (d_procs d ! i) then 1 else 0)
       = runsStarted m n + finished_runs m' n + (if in_flight n p then 1 else 0)" by blast
  have new: "countP (in_flight n) new = 0" "\<forall>q \<in> set new. \<not> adopted q" for n
    using go_step_new [OF go(4)] by (auto simp: count_simps)
  have "runsStarted m' n = finished_runs m' n + countP (in_flight n) ((d_procs d)[i := p] @ new)" for n
    using m(2) [of n] m'(3) [of n] new(1) [of n] countP_update [OF go(3), of "in_flight n" p]
    by (simp add: count_simps split: if_splits)
  moreover have "\<forall>q \<in> set ((d_procs d)[i := p] @ new). \<not> adopted q"
    using na m'(2) new(2) set_update_subset_insert [of "d_procs d" i p] by auto
  ultimately show ?thesis using go(2) m'(1) by (auto simp: accounted_def)
qed (use assms(1) l in \<open>auto simp: accounted_def Enqueue_call_def SetRouter_def Let_def count_simps\<close>)

text \<open>
  C27. The run metrics balance: as long as no run is adopted, for every executor the number of
  started runs is the number of finished ones, over the three results, plus the runs in
  flight. (An adopted run is counted as finished without having been counted as started.)
\<close>

theorem run_metrics_balance:
  assumes "initial d0" and "d_metrics d0 = Some metrics_New"
    and "dsteps ops match clock_ok d0 ls d" and "\<And>r n. LAdopt r n \<notin> set ls"
  shows "\<exists>m. d_metrics d = Some m \<and>
    (\<forall>n. runsStarted m n = finished_runs m n + countP (in_flight n) (d_procs d))"
proof -
  have "accounted d0" using initialD [OF assms(1)] assms(2)
    by (simp add: accounted_def metrics_New_def finished_runs_def count_simps)
  moreover have "accounted d2" if "dsteps ops match clock_ok d1 ls d2" "\<And>r n. LAdopt r n \<notin> set ls" "accounted d1"
    for d1 d2 ls using that by (induction rule: dsteps.induct) (auto intro: accounted_dstep)
  ultimately have "accounted d" using assms(3,4) by blast
  then show ?thesis by (auto simp: accounted_def)
qed

theorem run_metrics_balance_witness:
  "\<exists>d m. dsteps memory_ops sample_match (\<lambda>_. True) sample_d (sample_start @ sample_second) d
     \<and> d_metrics d = Some m \<and> runsStarted m ''k8s'' = finished_runs m ''k8s'' + 1"
proof -
  obtain d where d: "dsteps memory_ops sample_match (\<lambda>_. True) sample_d (sample_start @ sample_second) d"
    and p: "d_procs d = [Done, Executing sample_event (Some \<lparr>ex_Name = ''k8s''\<rparr>) (30 * second), Done]"
    using sample_running by blast
  have "LAdopt r n \<notin> set (sample_start @ sample_second)" for r n by (simp add: sample_start_def sample_second_def)
  moreover have "d_metrics sample_d = Some metrics_New" by (simp add: sample_d_def)
  ultimately obtain m where "d_metrics d = Some m" "runsStarted m ''k8s'' = finished_runs m ''k8s'' + countP (in_flight ''k8s'') (d_procs d)"
    using run_metrics_balance [OF sample_initial _ d] by blast
  moreover have "countP (in_flight ''k8s'') (d_procs d) = 1" unfolding p by (simp add: count_simps)
  ultimately show ?thesis using d by auto
qed

section \<open>Adoption without the guard\<close>

text \<open>
  The condition on adoptions is needed: \<open>Adopt\<close> itself does not check it. Two handles of
  the same repository, adopted one after the other, put two goroutines on the repository, and
  the first one to finish releases the lock of the other: a push that arrives then starts a
  run while the second adopted run is still in flight.
\<close>

theorem double_adoption_breaks_exclusion:
  "\<exists>d. exec_labels memory_ops sample_match
       [LAdopt sample_repo ''k8s'', LAdopt sample_repo ''k8s'', LGo 0 Proceed, LGo 1 Proceed,
        LGo 0 (Return None), LGo 0 Proceed, LGo 0 Proceed, LGo 0 Proceed, LGo 0 Proceed,
        LEnqueue sample_event, LGo 2 Proceed, LGo 3 Proceed, LTick (30 * second),
        LGo 3 Proceed, LGo 3 Proceed, LGo 3 Proceed, LGo 3 Proceed] sample_d = Some d
     \<and> lock_of (d_procs d ! 1) = LRunning (Key sample_repo) \<and> lock_of (d_procs d ! 3) = LRunning (Key sample_repo)"
proof -
  have "case exec_labels memory_ops sample_match
       [LAdopt sample_repo ''k8s'', LAdopt sample_repo ''k8s'', LGo 0 Proceed, LGo 1 Proceed,
        LGo 0 (Return None), LGo 0 Proceed, LGo 0 Proceed, LGo 0 Proceed, LGo 0 Proceed,
        LEnqueue sample_event, LGo 2 Proceed, LGo 3 Proceed, LTick (30 * second),
        LGo 3 Proceed, LGo 3 Proceed, LGo 3 Proceed, LGo 3 Proceed] sample_d of None \<Rightarrow> False
     | Some d \<Rightarrow> lock_of (d_procs d ! 1) = LRunning (Key sample_repo) \<and> lock_of (d_procs d ! 3) = LRunning (Key sample_repo)"
    by code_simp
  then show ?thesis by (rule case_Some_ex)
qed

end
