(* ===== verification/Regex.thy ===== *)
theory Regex
  imports Prelude
begin

text \<open>
  The part of Go's package \<open>regexp\<close> that the program's patterns use: anchors at line
  starts, character classes, greedy repetition of a class, sequence and alternation, with the
  leftmost-first (Perl) preference that \<open>FindAllString\<close> and \<open>ReplaceAllStringFunc\<close> have. The
  patterns are ASCII, and no byte of a multi-byte UTF-8 sequence is ASCII, so matching bytes
  finds the same matches as matching runes.
\<close>

section \<open>The matcher\<close>

datatype regex =
    Bol                           \<comment> \<open>\<open>^\<close> with the flag \<open>m\<close>\<close>
  | Cls "char \<Rightarrow> bool"            \<comment> \<open>one character of a class\<close>
  | Rep "char \<Rightarrow> bool"            \<comment> \<open>\<open>[...]*\<close>, greedy\<close>
  | Seq regex regex
  | Alt regex regex

text \<open>
  A position in the text is the character before it and the text after it. The matcher
  lists the positions where a match can end, the preferred one first.
\<close>

type_synonym pos = "char option \<times> string"

definition newline :: char where
  "newline = CHR 0x0A"

fun rep_ends :: "(char \<Rightarrow> bool) \<Rightarrow> char option \<Rightarrow> string \<Rightarrow> pos list" where
  "rep_ends P p [] = [(p, [])]"
| "rep_ends P p (c # s) = (if P c then rep_ends P (Some c) s else []) @ [(p, c # s)]"

fun match_ends :: "regex \<Rightarrow> pos \<Rightarrow> pos list" where
  "match_ends Bol (p, s) = (if p = None \<or> p = Some newline then [(p, s)] else [])"
| "match_ends (Cls P) (p, s) = (case s of [] \<Rightarrow> [] | c # s' \<Rightarrow> if P c then [(Some c, s')] else [])"
| "match_ends (Rep P) (p, s) = rep_ends P p s"
| "match_ends (Seq a b) x = concat (map (match_ends b) (match_ends a x))"
| "match_ends (Alt a b) x = match_ends a x @ match_ends b x"

text \<open>
  \<open>len(re.FindAllString(text, -1))\<close>: scan for the next position with a match, take its
  preferred end, and go on from there. (After an empty match the search moves on by one
  character; the patterns of the program match no empty text.)
\<close>

function count_matches :: "regex \<Rightarrow> pos \<Rightarrow> nat" where
  "count_matches r (p, s) =
     (case match_ends r (p, s) of
        [] \<Rightarrow> (case s of [] \<Rightarrow> 0 | c # s' \<Rightarrow> count_matches r (Some c, s'))
      | (p', s') # _ \<Rightarrow>
          if length s' < length s then Suc (count_matches r (p', s'))
          else (case s of [] \<Rightarrow> 1 | c # t \<Rightarrow> Suc (count_matches r (Some c, t))))"
  by pat_completeness auto
termination
  by (relation "measure (\<lambda>(r, p, s). length s)") auto

declare count_matches.simps [simp del]

text \<open>Derived forms of the patterns.\<close>

fun lit :: "string \<Rightarrow> regex" where
  "lit [] = Rep (\<lambda>_. False)"
| "lit (c # s) = Seq (Cls (\<lambda>x. x = c)) (lit s)"

definition Plus :: "(char \<Rightarrow> bool) \<Rightarrow> regex" where
  "Plus P = Seq (Cls P) (Rep P)"

section \<open>The language of a pattern\<close>

text \<open>The character before the position that follows \<open>v\<close>.\<close>

definition after :: "char option \<Rightarrow> string \<Rightarrow> char option" where
  "after p v = (if v = [] then p else Some (last v))"

fun lang :: "regex \<Rightarrow> char option \<Rightarrow> string \<Rightarrow> bool" where
  "lang Bol p v = (v = [] \<and> (p = None \<or> p = Some newline))"
| "lang (Cls P) p v = (\<exists>c. v = [c] \<and> P c)"
| "lang (Rep P) p v = list_all P v"
| "lang (Seq a b) p v = (\<exists>u w. v = u @ w \<and> lang a p u \<and> lang b (after p u) w)"
| "lang (Alt a b) p v = (lang a p v \<or> lang b p v)"

lemma after_simps [simp]:
  "after p [] = p" "after (after p u) v = after p (u @ v)" "after p (c # v) = after (Some c) v"
  by (auto simp: after_def)

lemma set_rep_ends: "set (rep_ends P p s) = {(after p v, s') | v s'. s = v @ s' \<and> list_all P v}"
proof (induction s arbitrary: p)
  case Nil
  then show ?case by auto
next
  case (Cons c s)
  show ?case (is "_ = ?R")
  proof (intro equalityI subsetI)
    fix x assume "x \<in> set (rep_ends P p (c # s))"
    then consider "P c" "x \<in> set (rep_ends P (Some c) s)" | "x = (p, c # s)" by (auto split: if_splits)
    then show "x \<in> ?R"
    proof cases
      case 1
      then obtain v s' where "x = (after (Some c) v, s')" "s = v @ s'" "list_all P v" using Cons.IH by auto
      with 1 show ?thesis by (auto intro!: exI [of _ "c # v"])
    qed (auto intro!: exI [of _ "[]"])
  next
    fix x assume "x \<in> ?R"
    then obtain v s' where x: "x = (after p v, s')" "c # s = v @ s'" "list_all P v" by blast
    then show "x \<in> set (rep_ends P p (c # s))" using Cons.IH [of "Some c"] by (cases v) auto
  qed
qed

text \<open>The matcher finds exactly the ways in which a prefix of the text is in the language.\<close>

lemma set_match_ends:
  "set (match_ends r (p, s)) = {(after p v, s') | v s'. s = v @ s' \<and> lang r p v}"
proof (induction r arbitrary: p s)
  case Bol
  then show ?case by (auto simp: after_def)
next
  case (Cls P)
  then show ?case by (cases s) (auto simp: Cons_eq_append_conv)
next
  case (Rep P)
  then show ?case by (simp add: set_rep_ends)
next
  case (Seq a b)
  show ?case
  proof (intro equalityI subsetI)
    fix x assume "x \<in> set (match_ends (Seq a b) (p, s))"
    then obtain u s1 v s2 where "s = u @ s1" "lang a p u" "s1 = v @ s2" "lang b (after p u) v"
      "x = (after (after p u) v, s2)" using Seq.IH by fastforce
    then have "x = (after p (u @ v), s2)" "s = (u @ v) @ s2" "lang (Seq a b) p (u @ v)" by auto
    then show "x \<in> {(after p v, s') | v s'. s = v @ s' \<and> lang (Seq a b) p v}" by blast
  next
    fix x assume "x \<in> {(after p v, s') | v s'. s = v @ s' \<and> lang (Seq a b) p v}"
    then obtain u w s2 where x: "s = u @ w @ s2" "lang a p u" "lang b (after p u) w" "x = (after p (u @ w), s2)"
      by auto
    have "(after p u, w @ s2) \<in> set (match_ends a (p, s))" using Seq.IH(1) x(1,2) by blast
    moreover have "x \<in> set (match_ends b (after p u, w @ s2))"
      using Seq.IH(2) [of "after p u" "w @ s2"] x(3,4) by auto
    ultimately show "x \<in> set (match_ends (Seq a b) (p, s))" by force
  qed
next
  case (Alt a b)
  then show ?case by auto
qed

lemma match_ends_Nil_iff:
  "match_ends r (p, s) = [] \<longleftrightarrow> (\<nexists>v s'. s = v @ s' \<and> lang r p v)"
  using set_match_ends [of r p s] by (auto simp flip: set_empty)

lemma lang_Seq_Cls: "lang (Seq (Cls P) b) p v \<longleftrightarrow> (\<exists>c w. v = c # w \<and> P c \<and> lang b (Some c) w)"
  by (fastforce intro: exI [of _ "[_]"])

lemma lang_lit: "lang (lit s) p v \<longleftrightarrow> v = s"
proof (induction s arbitrary: p v)
  case Nil
  then show ?case by (cases v) auto
next
  case (Cons c s)
  then show ?case by (auto simp only: lit.simps lang_Seq_Cls)
qed

lemma lang_Plus: "lang (Plus P) p v \<longleftrightarrow> v \<noteq> [] \<and> list_all P v"
  unfolding Plus_def lang_Seq_Cls by (cases v) auto

lemma lang_SeqI: "lang a p u \<Longrightarrow> lang b (after p u) w \<Longrightarrow> lang (Seq a b) p (u @ w)"
  by auto

section \<open>Replacement\<close>

text \<open>
  \<open>re.ReplaceAllStringFunc(s, f)\<close>, where \<open>f\<close> may update a state: every match, found as
  above, is replaced by \<open>f\<close> of its text, and what is inserted is not scanned again.
\<close>

function replace_matches ::
  "regex \<Rightarrow> (string \<Rightarrow> 'st \<Rightarrow> string \<times> 'st) \<Rightarrow> pos \<Rightarrow> 'st \<Rightarrow> string \<times> 'st" where
  "replace_matches r f (p, s) st =
     (case match_ends r (p, s) of
        [] \<Rightarrow> (case s of
                [] \<Rightarrow> ([], st)
              | c # s' \<Rightarrow> (case replace_matches r f (Some c, s') st of (out, st') \<Rightarrow> (c # out, st')))
      | (p', s') # _ \<Rightarrow>
          (case f (take (length s - length s') s) st of (t, st1) \<Rightarrow>
             if length s' < length s
             then (case replace_matches r f (p', s') st1 of (out, st2) \<Rightarrow> (t @ out, st2))
             else (case s of
                     [] \<Rightarrow> (t, st1)
                   | c # s'' \<Rightarrow> (case replace_matches r f (Some c, s'') st1 of (out, st2) \<Rightarrow> (t @ c # out, st2)))))"
  by pat_completeness auto
termination
  by (relation "measure (\<lambda>(r, f, (p, s), st). length s)") auto

declare replace_matches.simps [simp del]

lemma replace_skip:
  assumes "match_ends r (p, c # s) = []"
  shows "replace_matches r f (p, c # s) st = (case replace_matches r f (Some c, s) st of (out, st') \<Rightarrow> (c # out, st'))"
  using assms by (subst replace_matches.simps) simp

lemma replace_match:
  assumes "set (match_ends r (p, v @ s)) = {(p', s)}" and "v \<noteq> []"
  shows "replace_matches r f (p, v @ s) st =
    (case f v st of (t, st1) \<Rightarrow> case replace_matches r f (p', s) st1 of (out, st2) \<Rightarrow> (t @ out, st2))"
proof -
  obtain es where "match_ends r (p, v @ s) = (p', s) # es"
    using assms(1) by (cases "match_ends r (p, v @ s)") auto
  with assms(2) show ?thesis by (subst replace_matches.simps) (simp split: prod.split)
qed

text \<open>A pattern without an anchor does not look at the character before the position.\<close>

fun anchor_free :: "regex \<Rightarrow> bool" where
  "anchor_free Bol = False"
| "anchor_free (Seq a b) = (anchor_free a \<and> anchor_free b)"
| "anchor_free (Alt a b) = (anchor_free a \<and> anchor_free b)"
| "anchor_free r = True"

lemma anchor_free_lit [simp]: "anchor_free (lit s)"
  by (induction s) auto

lemma rep_ends_prev: "map snd (rep_ends P p s) = map snd (rep_ends P q s)"
  by (cases s) auto

lemma match_ends_prev: "anchor_free r \<Longrightarrow> map snd (match_ends r (p, s)) = map snd (match_ends r (q, s))"
proof (induction r arbitrary: p q s)
  case (Seq a b)
  have b: "map snd (match_ends b x) = map snd (match_ends b (None, snd x))" for x
    using Seq.IH(2) [of "fst x" "snd x" None] Seq.prems by simp
  have "map snd (match_ends (Seq a b) (p, s))
      = concat (map (\<lambda>t. map snd (match_ends b (None, t))) (map snd (match_ends a (p, s))))" for p
    using b by (simp add: map_concat comp_def)
  moreover have "map snd (match_ends a (p, s)) = map snd (match_ends a (q, s))" using Seq by simp
  ultimately show ?case by metis
next
  case (Rep P)
  then show ?case using rep_ends_prev by simp
next
  case (Alt a b)
  then have "map snd (match_ends a (p, s)) = map snd (match_ends a (q, s))"
    "map snd (match_ends b (p, s)) = map snd (match_ends b (q, s))" by (simp, metis anchor_free.simps(3))
  then show ?case by simp
qed (auto split: list.split)

lemma replace_prev:
  assumes "anchor_free r"
  shows "replace_matches r f (p, s) st = replace_matches r f (q, s) st"
proof (induction "length s" arbitrary: p q s st rule: less_induct)
  case less
  have eq: "map snd (match_ends r (p, s)) = map snd (match_ends r (q, s))" by (rule match_ends_prev [OF assms])
  show ?case
  proof (cases "match_ends r (p, s)")
    case Nil
    with eq have "match_ends r (q, s) = []" by simp
    with Nil show ?thesis by (simp add: replace_matches.simps [of r f p] replace_matches.simps [of r f q])
  next
    case (Cons e es)
    obtain p' s' where e: "e = (p', s')" by (cases e)
    with Cons eq obtain q' es' where q: "match_ends r (q, s) = (q', s') # es'"
      by (cases "match_ends r (q, s)") auto
    have "replace_matches r f (p', s') st1 = replace_matches r f (q', s') st1" if "length s' < length s" for st1
      using less that by blast
    with Cons e q show ?thesis
      by (simp add: replace_matches.simps [of r f p] replace_matches.simps [of r f q] split: prod.split)
  qed
qed

end
