(* ===== verification/Config_Load.thy ===== *)
theory Config_Load
  imports Config Regex
begin

text \<open>
  Loading the configuration (\<open>Load\<close> and \<open>expandNode\<close> of \<open>src/internal/config/load.go\<close>):
  environment references in the string scalars of the parsed YAML document are expanded,
  then the document is decoded, completed by defaults and validated. The YAML package is a
  parameter: what \<open>Unmarshal\<close> makes of the bytes and what \<open>Decode\<close> makes of a node.
\<close>

section \<open>Expansion\<close>

text \<open>The parts of a \<open>yaml.Node\<close> that the program reads or writes, and its children.\<close>

datatype yaml_kind = DocumentNode | SequenceNode | MappingNode | ScalarNode | AliasNode

datatype yaml_node = Node (yn_Kind: yaml_kind) (yn_Tag: string) (yn_Value: string) (yn_Content: "yaml_node list")

definition is_name_start :: "char \<Rightarrow> bool" where
  "is_name_start c \<longleftrightarrow> (65 \<le> (of_char c :: nat) \<and> (of_char c :: nat) \<le> 90)
     \<or> (97 \<le> (of_char c :: nat) \<and> (of_char c :: nat) \<le> 122) \<or> c = CHR ''_''"

definition is_name_char :: "char \<Rightarrow> bool" where
  "is_name_char c \<longleftrightarrow> is_name_start c \<or> (48 \<le> (of_char c :: nat) \<and> (of_char c :: nat) \<le> 57)"

definition envVarPattern :: regex where
  "envVarPattern = Seq (lit [CHR ''$'', CHR 0x7B])
     (Seq (Cls is_name_start) (Seq (Rep is_name_char) (lit [CHR 0x7D])))"

text \<open>The text of the first group of a match: what is between the braces.\<close>

definition env_name :: "string \<Rightarrow> string" where
  "env_name m = butlast (drop 2 m)"

definition expand_ref :: "(string \<rightharpoonup> string) \<Rightarrow> string \<Rightarrow> string list \<Rightarrow> string \<times> string list" where
  "expand_ref env m missing =
     (let name = env_name m
      in case env name of
           None \<Rightarrow> (m, missing @ [name])
         | Some val \<Rightarrow> (val, missing))"

definition expand_value :: "(string \<rightharpoonup> string) \<Rightarrow> string \<Rightarrow> string list \<Rightarrow> string \<times> string list" where
  "expand_value env s missing = replace_matches envVarPattern (expand_ref env) (None, s) missing"

fun expandNode :: "(string \<rightharpoonup> string) \<Rightarrow> yaml_node \<Rightarrow> string list \<Rightarrow> yaml_node \<times> string list"
  and expandNodes :: "(string \<rightharpoonup> string) \<Rightarrow> yaml_node list \<Rightarrow> string list \<Rightarrow> yaml_node list \<times> string list" where
  "expandNode env (Node k t v cs) missing =
     (let (v, missing) = (if k = ScalarNode \<and> t = ''!!str'' then expand_value env v missing else (v, missing));
          (cs, missing) = expandNodes env cs missing
      in (Node k t v cs, missing))"
| "expandNodes env [] missing = ([], missing)"
| "expandNodes env (c # cs) missing =
     (let (c, missing) = expandNode env c missing;
          (cs, missing) = expandNodes env cs missing
      in (c # cs, missing))"

section \<open>Load\<close>

datatype 'e load_error =
    ReadConfig 'e
  | ParseConfig 'e
  | UnsetVariables "string list"
  | InvalidConfig config_error

text \<open>The file system, the YAML package and the environment.\<close>

record 'e load_env =
  ReadFile :: "string \<Rightarrow> 'e + string"
  Unmarshal :: "string \<Rightarrow> 'e + yaml_node"
  Decode :: "yaml_node \<Rightarrow> 'e + Config"
  LookupEnv :: "string \<rightharpoonup> string"

definition Load :: "'e load_env \<Rightarrow> validators \<Rightarrow> string \<Rightarrow> 'e load_error + Config" where
  "Load E V path =
     (case ReadFile E path of Inl e \<Rightarrow> Inl (ReadConfig e) | Inr raw \<Rightarrow>
      case Unmarshal E raw of Inl e \<Rightarrow> Inl (ParseConfig e) | Inr root \<Rightarrow>
      case expandNode (LookupEnv E) root [] of (root, missing) \<Rightarrow>
      if length missing > 0 then Inl (UnsetVariables missing) else
      case Decode E root of Inl e \<Rightarrow> Inl (ParseConfig e) | Inr cfg \<Rightarrow>
      let cfg = applyDefaults cfg in
      case validate V cfg of Some e \<Rightarrow> Inl (InvalidConfig e) | None \<Rightarrow> Inr cfg)"

section \<open>The references\<close>

abbreviation env_ref :: "string \<Rightarrow> string" where
  "env_ref name \<equiv> [CHR ''$'', CHR 0x7B] @ name @ [CHR 0x7D]"

definition env_name_ok :: "string \<Rightarrow> bool" where
  "env_name_ok name \<longleftrightarrow> (\<exists>c w. name = c # w \<and> is_name_start c \<and> list_all is_name_char w)"

lemma lang_envVarPattern: "lang envVarPattern p v \<longleftrightarrow> (\<exists>name. v = env_ref name \<and> env_name_ok name)"
proof
  assume "lang envVarPattern p v"
  then obtain c w where "v = [CHR ''$'', CHR 0x7B] @ [c] @ w @ [CHR 0x7D]" "is_name_start c" "list_all is_name_char w"
    unfolding envVarPattern_def lang.simps lang_lit by blast
  then show "\<exists>name. v = env_ref name \<and> env_name_ok name"
    by (intro exI [of _ "c # w"]) (simp add: env_name_ok_def)
next
  assume "\<exists>name. v = env_ref name \<and> env_name_ok name"
  then obtain c w where "v = [CHR ''$'', CHR 0x7B] @ [c] @ w @ [CHR 0x7D]" "is_name_start c" "list_all is_name_char w"
    by (auto simp: env_name_ok_def)
  then show "lang envVarPattern p v"
    unfolding envVarPattern_def by (simp only:) (intro lang_SeqI, simp_all add: lang_lit)
qed

lemma name_no_brace: "env_name_ok name \<Longrightarrow> CHR 0x7D \<notin> set name"
proof -
  have "\<not> is_name_char (CHR 0x7D)" "\<not> is_name_start (CHR 0x7D)"
    by (simp_all add: is_name_char_def is_name_start_def)
  then show "env_name_ok name \<Longrightarrow> CHR 0x7D \<notin> set name" by (auto simp: env_name_ok_def list_all_iff)
qed

lemma env_ref_prefix_unique:
  assumes "env_name_ok n" "env_name_ok n'" "n @ [CHR 0x7D] @ s = n' @ [CHR 0x7D] @ s'"
  shows "n = n' \<and> s = s'"
proof -
  have "takeWhile (\<lambda>c. c \<noteq> CHR 0x7D) (m @ [CHR 0x7D] @ t) = m" if "env_name_ok m" for m t
    using name_no_brace [OF that] by (subst takeWhile_append2) auto
  then have "n = n'" using assms by metis
  with assms(3) show ?thesis by simp
qed

lemma match_env_ref:
  assumes "env_name_ok name"
  shows "set (match_ends envVarPattern (p, env_ref name @ s)) = {(Some (CHR 0x7D), s)}"
proof (intro equalityI subsetI)
  fix x assume "x \<in> set (match_ends envVarPattern (p, env_ref name @ s))"
  then obtain n s' where x: "x = (after p (env_ref n), s')" "env_ref name @ s = env_ref n @ s'" "env_name_ok n"
    unfolding set_match_ends lang_envVarPattern by blast
  from x(2) have "name @ [CHR 0x7D] @ s = n @ [CHR 0x7D] @ s'" by simp
  from env_ref_prefix_unique [OF assms x(3) this] x(1) show "x \<in> {(Some (CHR 0x7D), s)}" by (simp add: after_def)
next
  fix x assume "x \<in> {(Some (CHR 0x7D), s)}"
  then have "x = (after p (env_ref name), s)" by (simp add: after_def)
  with assms show "x \<in> set (match_ends envVarPattern (p, env_ref name @ s))"
    unfolding set_match_ends lang_envVarPattern by blast
qed

lemma no_match_env: "c \<noteq> CHR ''$'' \<Longrightarrow> match_ends envVarPattern (p, c # s) = []"
  by (auto simp: match_ends_Nil_iff lang_envVarPattern)

lemma no_match_env_Nil: "match_ends envVarPattern (p, []) = []"
  by (auto simp: match_ends_Nil_iff lang_envVarPattern)

lemma expand_value_prev: "replace_matches envVarPattern f (p, s) st = replace_matches envVarPattern f (None, s) st"
  by (rule replace_prev) (simp add: envVarPattern_def)

lemma expand_skip:
  assumes "CHR ''$'' \<notin> set a"
  shows "expand_value env (a @ b) missing = (case expand_value env b missing of (out, m) \<Rightarrow> (a @ out, m))"
  using assms
proof (induction a)
  case Nil
  then show ?case by (simp split: prod.split)
next
  case (Cons c a)
  have "expand_value env ((c # a) @ b) missing
      = (case replace_matches envVarPattern (expand_ref env) (Some c, a @ b) missing of (out, m) \<Rightarrow> (c # out, m))"
    unfolding expand_value_def using Cons.prems replace_skip [OF no_match_env [of c]] by auto
  also have "\<dots> = (case expand_value env (a @ b) missing of (out, m) \<Rightarrow> (c # out, m))"
    unfolding expand_value_def using expand_value_prev by metis
  also have "\<dots> = (case expand_value env b missing of (out, m) \<Rightarrow> ((c # a) @ out, m))"
    using Cons by (simp split: prod.split)
  finally show ?case .
qed

lemma expand_Nil: "expand_value env [] missing = ([], missing)"
  by (simp add: expand_value_def replace_matches.simps no_match_env_Nil)



section \<open>Properties of Load\<close>

lemma Load_Inr:
  "Load E V path = Inr cfg \<longleftrightarrow>
     (\<exists>raw root root' c. ReadFile E path = Inr raw \<and> Unmarshal E raw = Inr root
        \<and> expandNode (LookupEnv E) root [] = (root', []) \<and> Decode E root' = Inr c
        \<and> cfg = applyDefaults c \<and> valid_config V cfg)"
  by (auto simp: Load_def Let_def validate_iff [symmetric] split: sum.splits prod.splits option.splits if_splits)


end
