(* ===== verification/Checkbox.thy ===== *)
theory Checkbox
  imports Regex Platform
begin

text \<open>
  Checkbox detection (\<open>src/internal/platform/checkbox.go\<close>): the two patterns for checked
  todo items, the debug marker and the branch prefixes. The number of checked items is
  characterised without the matcher, and ticking one more box raises it by exactly one.
\<close>

section \<open>Definitions\<close>

text \<open>\<open>strings.Contains\<close>.\<close>

fun contains :: "string \<Rightarrow> string \<Rightarrow> bool" where
  "contains [] sub = (sub = [])"
| "contains (c # s) sub = (hasPrefix (c # s) sub \<or> contains s sub)"

definition HasRenovateDebugMarker :: "string \<Rightarrow> bool" where
  "HasRenovateDebugMarker text = contains text ''<!--renovate-debug:''"

fun BranchHasPrefix :: "string list \<Rightarrow> string \<Rightarrow> bool" where
  "BranchHasPrefix [] branch = False"
| "BranchHasPrefix (p # prefixes) branch = (if hasPrefix branch p then True else BranchHasPrefix prefixes branch)"

text \<open>The classes \<open>\s\<close>, \<open>\d\<close>, \<open>[-*+]\<close> and, with the flag \<open>i\<close>, \<open>x\<close>.\<close>

definition is_space :: "char \<Rightarrow> bool" where
  "is_space c \<longleftrightarrow> c \<in> {CHR 0x09, CHR 0x0A, CHR 0x0C, CHR 0x0D, CHR '' ''}"

definition is_decimal :: "char \<Rightarrow> bool" where
  "is_decimal c \<longleftrightarrow> 48 \<le> (of_char c :: nat) \<and> (of_char c :: nat) \<le> 57"

definition is_dash :: "char \<Rightarrow> bool" where
  "is_dash c \<longleftrightarrow> c \<in> {CHR ''-'', CHR ''*'', CHR ''+''}"

definition is_x :: "char \<Rightarrow> bool" where
  "is_x c \<longleftrightarrow> c \<in> {CHR ''x'', CHR ''X''}"

definition bullet_re :: regex where
  "bullet_re = Alt (Cls is_dash) (Seq (Plus is_decimal) (lit ''.''))"

definition box_re :: regex where
  "box_re = Seq (lit ''['') (Seq (Cls is_x) (lit '']''))"

definition checkedItem :: regex where
  "checkedItem = Seq Bol (Seq (Rep is_space) (Seq bullet_re (Seq (Plus is_space) box_re)))"

definition CheckedItems :: "string \<Rightarrow> nat" where
  "CheckedItems text = count_matches checkedItem (None, text)"

definition marker_re :: regex where
  "marker_re = Seq (Rep (\<lambda>c. c \<noteq> newline)) (Seq (lit ''<!--'') (Seq (Rep (\<lambda>c. c \<noteq> CHR ''>'')) (lit ''-->'')))"

definition checkedMarkerItem :: regex where
  "checkedMarkerItem = Seq Bol (Seq (Rep is_space) (Seq bullet_re (Seq (Plus is_space) (Seq box_re marker_re))))"

definition CheckedMarkerItems :: "string \<Rightarrow> nat" where
  "CheckedMarkerItems text = count_matches checkedMarkerItem (None, text)"

section \<open>The language of a checked item\<close>

definition is_bullet :: "string \<Rightarrow> bool" where
  "is_bullet b \<longleftrightarrow> (\<exists>c. b = [c] \<and> is_dash c) \<or> (\<exists>ds. ds \<noteq> [] \<and> list_all is_decimal ds \<and> b = ds @ ''.'')"

text \<open>The text of a checked item: white space, a bullet, white space, the checked box.\<close>

definition item :: "string \<Rightarrow> bool" where
  "item v \<longleftrightarrow> (\<exists>w1 b w2 x. v = w1 @ b @ w2 @ [CHR ''['', x, CHR '']''] \<and> list_all is_space w1 \<and> is_bullet b
     \<and> w2 \<noteq> [] \<and> list_all is_space w2 \<and> is_x x)"

definition bol :: "char option \<Rightarrow> bool" where
  "bol p \<longleftrightarrow> p = None \<or> p = Some newline"

lemma lang_bullet: "lang bullet_re p b \<longleftrightarrow> is_bullet b"
  unfolding bullet_re_def is_bullet_def lang.simps lang_Plus lang_lit by blast

lemma lang_box: "lang box_re p v \<longleftrightarrow> (\<exists>x. v = [CHR ''['', x, CHR '']''] \<and> is_x x)"
  unfolding box_re_def lang.simps(4) lang_lit lang.simps(2) by auto

lemma lang_checkedItem: "lang checkedItem p v \<longleftrightarrow> bol p \<and> item v"
proof -
  have "lang checkedItem p v \<longleftrightarrow> bol p \<and> lang (Seq (Rep is_space) (Seq bullet_re (Seq (Plus is_space) box_re))) p v"
    unfolding checkedItem_def bol_def by (subst lang.simps(4)) auto
  also have "lang (Seq (Rep is_space) (Seq bullet_re (Seq (Plus is_space) box_re))) p v \<longleftrightarrow> item v"
  proof
    assume "lang (Seq (Rep is_space) (Seq bullet_re (Seq (Plus is_space) box_re))) p v"
    then obtain w1 b w2 x where "v = w1 @ b @ w2 @ [CHR ''['', x, CHR '']'']" "list_all is_space w1" "is_bullet b"
      "w2 \<noteq> []" "list_all is_space w2" "is_x x"
      unfolding lang.simps(3,4) lang_bullet lang_box lang_Plus by (elim exE conjE) simp
    then show "item v" unfolding item_def by blast
  next
    assume "item v"
    then obtain w1 b w2 x where "v = w1 @ b @ w2 @ [CHR ''['', x, CHR '']'']" "list_all is_space w1" "is_bullet b"
      "w2 \<noteq> []" "list_all is_space w2" "is_x x" unfolding item_def by blast
    then show "lang (Seq (Rep is_space) (Seq bullet_re (Seq (Plus is_space) box_re))) p v"
      by (simp only:) (intro lang_SeqI, simp_all add: lang_bullet lang_box lang_Plus)
  qed
  finally show ?thesis .
qed

lemma list_all_notin: "list_all P w \<Longrightarrow> \<not> P c \<Longrightarrow> c \<notin> set w"
  by (auto simp: list_all_iff)

text \<open>The closing bracket ends an item and occurs nowhere else in it.\<close>

lemma item_bracket:
  assumes "item v"
  obtains v' where "v = v' @ '']''" "CHR '']'' \<notin> set v'" "v' \<noteq> []"
proof -
  obtain w1 b w2 x where v: "v = w1 @ b @ w2 @ [CHR ''['', x, CHR '']'']" "list_all is_space w1" "is_bullet b"
    "list_all is_space w2" "is_x x" using assms unfolding item_def by blast
  have sp: "\<not> is_space (CHR '']'')" "\<not> is_decimal (CHR '']'')" "\<not> is_dash (CHR '']'')" "\<not> is_x (CHR '']'')"
    by (simp_all add: is_space_def is_decimal_def is_dash_def is_x_def)
  have "CHR '']'' \<notin> set b" using v(3) sp unfolding is_bullet_def by (auto dest: list_all_notin)
  moreover have "x \<noteq> CHR '']''" using v(5) sp by metis
  ultimately have "CHR '']'' \<notin> set (w1 @ b @ w2 @ [CHR ''['', x])"
    using list_all_notin [OF v(2) sp(1)] list_all_notin [OF v(4) sp(1)] by auto
  with v(1) that [of "w1 @ b @ w2 @ [CHR ''['', x]"] show thesis by simp
qed

lemma item_takeWhile: "item v \<Longrightarrow> v = takeWhile (\<lambda>c. c \<noteq> CHR '']'') (v @ z) @ '']''"
  by (elim item_bracket) (auto simp: takeWhile_append)

text \<open>Two items of a text that overlap have the same end.\<close>

lemma item_overlap:
  assumes "item v" and "item (u @ x)" and "x \<noteq> []" and "v @ s = x @ s'"
  shows "v = x \<and> s = s'"
proof -
  obtain w where w: "u @ x = w @ '']''" "CHR '']'' \<notin> set w" using item_bracket [OF assms(2)] by metis
  then obtain x' where "x = x' @ '']''" "set x' \<subseteq> set w"
    using assms(3) by (cases x rule: rev_cases) auto
  with w(2) have "x = takeWhile (\<lambda>c. c \<noteq> CHR '']'') (x @ s') @ '']''" by (auto simp: takeWhile_append)
  with item_takeWhile [OF assms(1), of s] assms(4) have "v = x" by metis
  with assms(4) show ?thesis by simp
qed

section \<open>Counting\<close>

text \<open>How much text is left after each item of \<open>s\<close>, where \<open>p\<close> is the character before \<open>s\<close>.\<close>

definition item_ends :: "char option \<Rightarrow> string \<Rightarrow> nat set" where
  "item_ends p s = {length s' | u v s'. s = u @ v @ s' \<and> bol (after p u) \<and> item v}"

lemma item_endsI: "s = u @ v @ s' \<Longrightarrow> bol (after p u) \<Longrightarrow> item v \<Longrightarrow> length s' \<in> item_ends p s"
  by (auto simp: item_ends_def)

lemma item_ends_less: "m \<in> item_ends p s \<Longrightarrow> m < length s"
  by (auto simp: item_ends_def elim: item_bracket)

lemma finite_item_ends [simp]: "finite (item_ends p s)"
  by (rule finite_subset [of _ "{..<length s}"]) (auto dest: item_ends_less)

lemma item_ends_skip:
  assumes "\<nexists>v s'. c # s = v @ s' \<and> bol p \<and> item v"
  shows "item_ends p (c # s) = item_ends (Some c) s"
proof (intro equalityI subsetI)
  fix m assume "m \<in> item_ends p (c # s)"
  then obtain u v s' where m: "c # s = u @ v @ s'" "bol (after p u)" "item v" "m = length s'"
    by (auto simp: item_ends_def)
  show "m \<in> item_ends (Some c) s"
  proof (cases u)
    case Nil
    with m assms show ?thesis by auto
  next
    case (Cons d u')
    with m show ?thesis by (auto simp: item_ends_def)
  qed
next
  fix m assume "m \<in> item_ends (Some c) s"
  then obtain u v s' where "s = u @ v @ s'" "bol (after (Some c) u)" "item v" "m = length s'"
    by (auto simp: item_ends_def)
  then show "m \<in> item_ends p (c # s)"
    using item_endsI [of "c # s" "c # u" v s' p] by simp
qed

lemma item_ends_mono: "item_ends (after p u) s \<subseteq> item_ends p (u @ s)"
proof
  fix m assume "m \<in> item_ends (after p u) s"
  then obtain u' v s' where "s = u' @ v @ s'" "bol (after (after p u) u')" "item v" "m = length s'"
    by (auto simp: item_ends_def)
  then show "m \<in> item_ends p (u @ s)"
    using item_endsI [of "u @ s" "u @ u'" v s' p] by simp
qed

lemma item_ends_item:
  assumes "bol p" and "item v"
  shows "item_ends p (v @ s) = insert (length s) (item_ends (after p v) s)"
proof (intro equalityI subsetI)
  fix m assume "m \<in> item_ends p (v @ s)"
  then obtain u w s' where m: "v @ s = u @ w @ s'" "bol (after p u)" "item w" "m = length s'"
    by (auto simp: item_ends_def)
  from m(1) obtain x where "v = u @ x \<and> x @ s = w @ s' \<or> u = v @ x \<and> s = x @ w @ s'"
    unfolding append_eq_append_conv2 by blast
  then consider (inside) "v = u @ x" "x \<noteq> []" "w @ s' = x @ s" | (behind) y where "u = v @ y" "s = y @ w @ s'"
    by (cases "x = []") auto
  then show "m \<in> insert (length s) (item_ends (after p v) s)"
  proof cases
    case inside
    with item_overlap [OF m(3), of u x s' s] assms(2) m(4) show ?thesis by simp
  next
    case behind
    with m item_endsI [of s y w s' "after p v"] show ?thesis by simp
  qed
next
  fix m assume "m \<in> insert (length s) (item_ends (after p v) s)"
  then show "m \<in> item_ends p (v @ s)"
  proof
    assume "m = length s"
    with assms item_endsI [of "v @ s" "[]" v s p] show ?thesis by simp
  qed (use item_ends_mono in blast)
qed

lemma count_checked: "count_matches checkedItem (p, s) = card (item_ends p s)"
proof (induction "length s" arbitrary: p s rule: less_induct)
  case less
  show ?case
  proof (cases "match_ends checkedItem (p, s)")
    case Nil
    then have no: "\<nexists>v s'. s = v @ s' \<and> bol p \<and> item v" by (simp add: match_ends_Nil_iff lang_checkedItem)
    show ?thesis
    proof (cases s)
      case Nil
      then have "item_ends p s = {}" by (auto dest: item_ends_less)
      with Nil \<open>match_ends _ _ = []\<close> show ?thesis by (simp add: count_matches.simps)
    next
      case (Cons c s')
      have "count_matches checkedItem (p, s) = count_matches checkedItem (Some c, s')"
        using Cons \<open>match_ends _ _ = []\<close> by (subst count_matches.simps) simp
      also have "\<dots> = card (item_ends (Some c) s')" using less Cons by simp
      also have "\<dots> = card (item_ends p s)" using item_ends_skip [of c s' p] no Cons by simp
      finally show ?thesis .
    qed
  next
    case (Cons e es)
    obtain p' s' where e: "e = (p', s')" by (cases e)
    have "(p', s') \<in> set (match_ends checkedItem (p, s))" using Cons e by simp
    then obtain v where v: "s = v @ s'" "p' = after p v" "bol p" "item v"
      by (auto simp: set_match_ends lang_checkedItem)
    from v(4) have len: "length s' < length s" using v(1) by (auto elim: item_bracket)
    have "count_matches checkedItem (p, s) = Suc (count_matches checkedItem (p', s'))"
      using Cons e len by (subst count_matches.simps) simp
    also have "\<dots> = Suc (card (item_ends p' s'))" using less len by simp
    also have "\<dots> = card (item_ends p s)"
      using item_ends_item [OF v(3,4), of s'] item_ends_less [of "length s'" p' s'] v(1,2)
      by (metis card_insert_disjoint finite_item_ends less_irrefl)
    finally show ?thesis .
  qed
qed

section \<open>Items by their ends\<close>

text \<open>A text that ends with a checked item which begins at the start of a line.\<close>

definition ends_item :: "string \<Rightarrow> bool" where
  "ends_item t \<longleftrightarrow> (\<exists>u v. t = u @ v \<and> bol (after None u) \<and> item v)"

lemma item_ends_iff:
  "m \<in> item_ends None t \<longleftrightarrow> m \<le> length t \<and> ends_item (take (length t - m) t)"
proof
  assume "m \<in> item_ends None t"
  then obtain u v s' where "t = (u @ v) @ s'" "bol (after None u)" "item v" "m = length s'"
    by (auto simp: item_ends_def)
  then show "m \<le> length t \<and> ends_item (take (length t - m) t)" by (auto simp: ends_item_def)
next
  assume "m \<le> length t \<and> ends_item (take (length t - m) t)"
  then obtain u v where m: "m \<le> length t" and uv: "take (length t - m) t = u @ v" "bol (after None u)" "item v"
    by (auto simp: ends_item_def)
  have "t = u @ v @ drop (length t - m) t" using uv(1) by (metis append_assoc append_take_drop_id)
  from item_endsI [OF this uv(2,3)] m show "m \<in> item_ends None t" by simp
qed

lemma CheckedItems_card: "CheckedItems t = card {n. n \<le> length t \<and> ends_item (take n t)}"
proof -
  have "bij_betw (\<lambda>m. length t - m) (item_ends None t) {n. n \<le> length t \<and> ends_item (take n t)}"
  proof (rule bij_betw_byWitness [where f' = "\<lambda>n. length t - n"])
    show "\<forall>m \<in> item_ends None t. length t - (length t - m) = m" by (auto simp: item_ends_iff)
    show "(\<lambda>n. length t - n) ` {n. n \<le> length t \<and> ends_item (take n t)} \<subseteq> item_ends None t"
      by (auto simp: item_ends_iff)
  qed (auto simp: item_ends_iff)
  then show ?thesis unfolding CheckedItems_def count_checked by (rule bij_betw_same_card)
qed

lemma ends_item_bracket: "ends_item t \<Longrightarrow> \<exists>t'. t = t' @ '']''"
  by (auto simp: ends_item_def elim!: item_bracket)

text \<open>An item after a closing bracket does not depend on the text before the bracket.\<close>

lemma ends_item_behind:
  assumes "y \<noteq> []"
  shows "ends_item (a @ '']'' @ y) \<longleftrightarrow> (\<exists>u v. y = u @ v \<and> bol (after (Some (CHR '']'')) u) \<and> item v)"
proof
  assume "ends_item (a @ '']'' @ y)"
  then obtain u v where uv: "(a @ '']'') @ y = u @ v" "bol (after None u)" "item v" by (auto simp: ends_item_def)
  from item_bracket [OF uv(3)] obtain v' where v': "v = v' @ '']''" "CHR '']'' \<notin> set v'" .
  from uv(1) obtain x where x: "a @ '']'' = u @ x \<and> x @ y = v \<or> u = (a @ '']'') @ x \<and> y = x @ v"
    unfolding append_eq_append_conv2 by metis
  show "\<exists>u v. y = u @ v \<and> bol (after (Some (CHR '']'')) u) \<and> item v"
  proof (cases "u = (a @ '']'') @ x \<and> y = x @ v")
    case True
    with uv show ?thesis by (intro exI [of _ x] exI [of _ v]) (simp add: after_def split: if_splits)
  next
    case False
    with x have l: "a @ '']'' = u @ x" "x @ y = v" by auto
    show ?thesis
    proof (cases x rule: rev_cases)
      case Nil
      with l uv show ?thesis by (intro exI [of _ "[]"] exI [of _ v]) (auto simp: after_def split: if_splits)
    next
      case (snoc x' c)
      with l(1) have "c = CHR '']''" by simp
      with snoc l(2) assms v' have "CHR '']'' \<in> set v'" by (cases y rule: rev_cases) auto
      with v'(2) show ?thesis by contradiction
    qed
  qed
next
  assume "\<exists>u v. y = u @ v \<and> bol (after (Some (CHR '']'')) u) \<and> item v"
  then obtain u v where "y = u @ v" "bol (after (Some (CHR '']'')) u)" "item v" by blast
  then show "ends_item (a @ '']'' @ y)" unfolding ends_item_def
    by (intro exI [of _ "a @ '']'' @ u"] exI [of _ v]) (simp add: after_def split: if_splits)
qed

lemma ends_item_box:
  assumes "u = w1 @ b @ w2" "list_all is_space w1" "is_bullet b" "w2 \<noteq> []" "list_all is_space w2"
    and "bol (after None a)"
  shows "ends_item ((a @ u) @ ''[x]'')"
proof -
  have "item (u @ ''[x]'')" unfolding item_def assms(1)
    using assms(2-5) by (intro exI [of _ w1] exI [of _ b] exI [of _ w2] exI [of _ "CHR ''x''"]) (simp add: is_x_def)
  with assms(6) show ?thesis unfolding ends_item_def by (intro exI [of _ a] exI [of _ "u @ ''[x]''"]) simp
qed

lemma not_ends_item_box: "\<not> ends_item (a @ ''[ ]'')"
proof
  assume "ends_item (a @ ''[ ]'')"
  then obtain u v where uv: "a @ ''[ ]'' = u @ v" "item v" by (auto simp: ends_item_def)
  then obtain w x where "v = w @ [CHR ''['', x, CHR '']'']" "is_x x" unfolding item_def by (metis append_assoc)
  with uv(1) show False by (auto simp: is_x_def)
qed

section \<open>Properties\<close>

text \<open>
  C21. \<open>CheckedItems\<close> counts every checked todo item once: its result is the number of positions
  in the text that are the end of a bullet, white space and a checked box beginning, after
  white space, at the start of a line. The scan with its non-overlapping matches misses none
  and counts none twice.
\<close>

theorem checked_items_exact:
  "CheckedItems t = card {n. n \<le> length t \<and> ends_item (take n t)}"
  by (rule CheckedItems_card)

lemma take_box:
  "length h + 3 < n \<Longrightarrow> take n (h @ [CHR ''['', x, CHR '']''] @ z) = (h @ [CHR ''['', x]) @ '']'' @ take (n - length h - 3) z"
proof -
  assume "length h + 3 < n"
  then obtain k where "n = length h + 3 + k" by (metis less_imp_add_positive)
  then show ?thesis by (simp add: numeral_3_eq_3)
qed

lemma ends_item_other_box:
  assumes "n \<noteq> length h + 3" and "n \<le> length (h @ ''[ ]'' @ z)"
  shows "ends_item (take n (h @ ''[x]'' @ z)) \<longleftrightarrow> ends_item (take n (h @ ''[ ]'' @ z))"
proof -
  consider "n \<le> length h" | "n = length h + 1" | "n = length h + 2" | "length h + 3 < n" using assms(1) by linarith
  then show ?thesis
  proof cases
    case 1
    then show ?thesis by simp
  next
    case 2
    then have "take n (h @ ''[x]'' @ z) = take n (h @ ''[ ]'' @ z)" by simp
    then show ?thesis by simp
  next
    case 3
    then have "take n (h @ ''[x]'' @ z) = h @ ''[x''" "take n (h @ ''[ ]'' @ z) = h @ ''[ ''"
      by (simp_all add: numeral_2_eq_2)
    then show ?thesis using ends_item_bracket [of "h @ ''[x''"] ends_item_bracket [of "h @ ''[ ''"] by auto
  next
    case 4
    have "take (n - length h - 3) z \<noteq> []" using 4 assms(2) by auto
    from ends_item_behind [OF this] show ?thesis unfolding take_box [OF 4] by (simp only:)
  qed
qed

text \<open>
  C22. A tick is one more checked item: checking an empty box of a todo item at the start of a
  line (bullet, white space, \<open>[ ]\<close> turned into \<open>[x]\<close>), whatever stands before and after it,
  raises \<open>CheckedItems\<close> by exactly one. So the comparison of the counts before and after an
  edit sees every single tick.
\<close>

theorem tick_adds_one:
  assumes "bol (after None a)" and "list_all is_space w1" and "is_bullet b"
    and "w2 \<noteq> []" and "list_all is_space w2"
  shows "CheckedItems (a @ w1 @ b @ w2 @ ''[x]'' @ z) = Suc (CheckedItems (a @ w1 @ b @ w2 @ ''[ ]'' @ z))"
proof -
  let ?h = "a @ w1 @ b @ w2" and ?E = "\<lambda>t. {n. n \<le> length t \<and> ends_item (take n t)}"
  let ?t1 = "?h @ ''[x]'' @ z" and ?t0 = "?h @ ''[ ]'' @ z"
  have len: "length ?t1 = length ?t0" "length ?h + 3 \<le> length ?t0" by simp_all
  have tk: "take (length ?h + 3) ?t1 = ?h @ ''[x]''" "take (length ?h + 3) ?t0 = ?h @ ''[ ]''"
    by (simp_all add: numeral_3_eq_3)
  have n1: "ends_item (take (length ?h + 3) ?t1)"
    unfolding tk using ends_item_box [OF refl assms(2-5,1)] by simp
  have n0: "\<not> ends_item (take (length ?h + 3) ?t0)" unfolding tk by (rule not_ends_item_box)
  have eq: "?E ?t1 = insert (length ?h + 3) (?E ?t0)"
  proof (intro set_eqI iffI)
    fix n assume "n \<in> ?E ?t1"
    then show "n \<in> insert (length ?h + 3) (?E ?t0)"
      using ends_item_other_box [of n ?h z] len(1) by (cases "n = length ?h + 3") auto
  next
    fix n assume "n \<in> insert (length ?h + 3) (?E ?t0)"
    then show "n \<in> ?E ?t1"
      using ends_item_other_box [of n ?h z] len n1 by (cases "n = length ?h + 3") auto
  qed
  have "finite (?E ?t0)" by (rule finite_subset [of _ "{..length ?t0}"]) auto
  moreover have "length ?h + 3 \<notin> ?E ?t0" using n0 by blast
  ultimately have "card (insert (length ?h + 3) (?E ?t0)) = Suc (card (?E ?t0))" by (rule card_insert_disjoint)
  then have "card (?E ?t1) = Suc (card (?E ?t0))" unfolding eq .
  then show ?thesis by (simp only: CheckedItems_card append_assoc)
qed

theorem tick_adds_one_witness:
  "CheckedItems (''Text'' @ [newline] @ ''- [x] <!-- rebase-check -->'') = 1
     \<and> CheckedItems (''Text'' @ [newline] @ ''- [ ] <!-- rebase-check -->'') = 0"
proof -
  have "CheckedItems (''Text'' @ [newline] @ ''- [ ] <!-- rebase-check -->'') = 0" by code_simp
  moreover have "bol (after None (''Text'' @ [newline]))" "list_all is_space '' ''" "is_bullet ''-''"
    by (simp_all add: bol_def after_def is_space_def is_bullet_def is_dash_def)
  ultimately show ?thesis
    using tick_adds_one [of "''Text'' @ [newline]" "''''" "''-''" "'' ''" "'' <!-- rebase-check -->''"] by simp
qed

text \<open>The language of a marked item: a checked item followed by something.\<close>

lemma lang_checkedMarkerItem:
  assumes "lang checkedMarkerItem p v"
  shows "bol p \<and> (\<exists>v1 v2. v = v1 @ v2 \<and> item v1)"
proof -
  have bl: "bol p \<and> lang (Seq (Rep is_space) (Seq bullet_re (Seq (Plus is_space) (Seq box_re marker_re)))) p v"
    using assms unfolding checkedMarkerItem_def bol_def by (subst (asm) lang.simps(4)) auto
  from bl [THEN conjunct2] obtain w1 b w2 x z where "v = w1 @ b @ w2 @ [CHR ''['', x, CHR '']''] @ z"
    "list_all is_space w1" "is_bullet b" "w2 \<noteq> []" "list_all is_space w2" "is_x x"
    unfolding lang.simps(3,4) lang_bullet lang_box lang_Plus by blast
  then have "item (w1 @ b @ w2 @ [CHR ''['', x, CHR '']''])" "v = (w1 @ b @ w2 @ [CHR ''['', x, CHR '']'']) @ z"
    unfolding item_def by (blast, simp)
  then show ?thesis using bl by blast
qed

lemma count_marked: "count_matches checkedMarkerItem (p, s) \<le> card (item_ends p s)"
proof (induction "length s" arbitrary: p s rule: less_induct)
  case less
  show ?case
  proof (cases "match_ends checkedMarkerItem (p, s)")
    case Nil
    show ?thesis
    proof (cases s)
      case (Cons c s')
      have "count_matches checkedMarkerItem (p, s) = count_matches checkedMarkerItem (Some c, s')"
        using Cons Nil by (subst count_matches.simps) simp
      also have "\<dots> \<le> card (item_ends (Some c) s')" using less Cons by simp
      also have "\<dots> \<le> card (item_ends p s)"
        using item_ends_mono [of p "[c]" s'] Cons by (intro card_mono) simp_all
      finally show ?thesis .
    qed (use Nil in \<open>simp add: count_matches.simps\<close>)
  next
    case (Cons e es)
    obtain p' s' where e: "e = (p', s')" by (cases e)
    have "(p', s') \<in> set (match_ends checkedMarkerItem (p, s))" using Cons e by simp
    then obtain v where v: "s = v @ s'" "p' = after p v" "lang checkedMarkerItem p v"
      by (auto simp: set_match_ends)
    from lang_checkedMarkerItem [OF v(3)] obtain v1 v2 where i: "bol p" "v = v1 @ v2" "item v1" by blast
    have len: "length s' < length s" using v(1) i(2,3) by (auto elim: item_bracket)
    have "count_matches checkedMarkerItem (p, s) = Suc (count_matches checkedMarkerItem (p', s'))"
      using Cons e len by (subst count_matches.simps) simp
    also have "\<dots> \<le> Suc (card (item_ends p' s'))" using less len by simp
    also have "\<dots> \<le> Suc (card (item_ends (after p v1) (v2 @ s')))"
      using item_ends_mono [of "after p v1" v2 s'] v(2) i(2) by (simp add: card_mono)
    also have "\<dots> = card (item_ends p s)"
      using item_ends_item [OF i(1,3), of "v2 @ s'"] item_ends_less [of "length (v2 @ s')" "after p v1" "v2 @ s'"] v(1) i(2)
      by (metis append_assoc card_insert_disjoint finite_item_ends less_irrefl)
    finally show ?thesis .
  qed
qed

text \<open>
  The stricter count never exceeds the plain one: every match of the marker pattern
  accounts for a checked item of its own.
\<close>

theorem marked_items_are_checked_items: "CheckedMarkerItems t \<le> CheckedItems t"
  unfolding CheckedMarkerItems_def CheckedItems_def count_checked by (rule count_marked)

end
