(* ===== verification/Forge.thy ===== *)
theory Forge
  imports Checkbox GoTime Crypto
begin

text \<open>
  What the two hosting adapters share: HTTP requests, the Go string functions they use,
  the paginated listings of the hosting APIs, and the interface \<open>platform.Platform\<close> as a
  locale (\<open>src/internal/platform/platform.go\<close>).
\<close>

section \<open>Go strings and numbers\<close>

text \<open>\<open>strings.Split\<close> at a one-byte separator.\<close>

fun split_at :: "char \<Rightarrow> string \<Rightarrow> string list" where
  "split_at sep [] = [[]]"
| "split_at sep (c # s) =
     (if c = sep then [] # split_at sep s
      else (case split_at sep s of [] \<Rightarrow> [[c]] | w # ws \<Rightarrow> (c # w) # ws))"

text \<open>\<open>strings.TrimPrefix\<close> and \<open>strings.CutPrefix\<close>.\<close>

definition trimPrefix :: "string \<Rightarrow> string \<Rightarrow> string" where
  "trimPrefix s p = (if hasPrefix s p then drop (length p) s else s)"

definition cutPrefix :: "string \<Rightarrow> string \<Rightarrow> string option" where
  "cutPrefix s p = (if hasPrefix s p then Some (drop (length p) s) else None)"

text \<open>\<open>strconv.ParseInt(s, 10, 64)\<close>; \<^const>\<open>None\<close> is a syntax or range error.\<close>

definition digits_int :: "string \<Rightarrow> int" where
  "digits_int s = foldl (\<lambda>a c. 10 * a + int (digit_val c)) 0 s"

definition ParseInt64 :: "string \<Rightarrow> int option" where
  "ParseInt64 s =
     (let (neg, ds) = (case s of
            [] \<Rightarrow> (False, [])
          | c # cs \<Rightarrow> if c = CHR ''-'' then (True, cs) else if c = CHR ''+'' then (False, cs) else (False, s))
      in if ds = [] \<or> \<not> list_all is_digit ds then None
         else let n = digits_int ds in
           if neg then (if n \<le> 2 ^ 63 then Some (- n) else None)
           else (if n < 2 ^ 63 then Some n else None))"

text \<open>
  \<open>strings.TrimSpace\<close>: the UTF-8 encodings of the Unicode white space are stripped at both
  ends.
\<close>

definition space_runes :: "string list" where
  "space_runes = map (\<lambda>c. [c]) [CHR 0x09, CHR 0x0A, CHR 0x0B, CHR 0x0C, CHR 0x0D, CHR '' '']
     @ [[CHR 0xC2, CHR 0x85], [CHR 0xC2, CHR 0xA0], [CHR 0xE1, CHR 0x9A, CHR 0x80]]
     @ map (\<lambda>c. [CHR 0xE2, CHR 0x80, c])
         [CHR 0x80, CHR 0x81, CHR 0x82, CHR 0x83, CHR 0x84, CHR 0x85, CHR 0x86, CHR 0x87, CHR 0x88, CHR 0x89,
          CHR 0x8A, CHR 0xA8, CHR 0xA9, CHR 0xAF]
     @ [[CHR 0xE2, CHR 0x81, CHR 0x9F], [CHR 0xE3, CHR 0x80, CHR 0x80]]"

fun trim_with :: "nat \<Rightarrow> string list \<Rightarrow> string \<Rightarrow> string" where
  "trim_with 0 runes s = s"
| "trim_with (Suc n) runes s =
     (case find (hasPrefix s) runes of None \<Rightarrow> s | Some e \<Rightarrow> trim_with n runes (drop (length e) s))"

text \<open>Each round strips at least one byte, so the length of the text is enough fuel.\<close>

definition TrimSpace :: "string \<Rightarrow> string" where
  "TrimSpace s =
     (let t = trim_with (length s) space_runes s
      in rev (trim_with (length t) (map rev space_runes) (rev t)))"

section \<open>Requests\<close>

text \<open>\<open>r.Header.Get\<close> as a function; a missing header reads as the empty string.\<close>

record http_request =
  Header :: "string \<Rightarrow> string"

text \<open>
  What \<open>ParseWebhook\<close> returns: an error, no event (nil), or an event. \<open>ParseError\<close> carries the
  error of the hosting package.
\<close>

datatype webhook_error = ErrUnauthorized | ParseError string

type_synonym webhook_result = "webhook_error + Event option"

section \<open>Paginated listings\<close>

text \<open>
  The loop \<open>for { page, resp, err := list(opt); ...; if resp.NextPage == 0 { break }; opt.Page =
  resp.NextPage }\<close>. A server that never ends its listing would keep it running: then there is no
  result (\<^const>\<open>None\<close>). An unset \<open>opt.Page\<close> is page 0.
\<close>

partial_function (option) page_loop ::
  "(int \<Rightarrow> string + ('a list \<times> int)) \<Rightarrow> ('a list \<Rightarrow> 'b list) \<Rightarrow> int \<Rightarrow> 'b list \<Rightarrow> (string + 'b list) option" where
  "page_loop fetch f page acc =
     (case fetch page of
        Inl e \<Rightarrow> Some (Inl e)
      | Inr (items, next) \<Rightarrow>
          if next = 0 then Some (Inr (acc @ f items)) else page_loop fetch f next (acc @ f items))"

declare page_loop.simps [code]

text \<open>A server that has the given pages: page 0 and page 1 are the first one.\<close>

definition serve_pages :: "'a list list \<Rightarrow> int \<Rightarrow> string + ('a list \<times> int)" where
  "serve_pages pages p =
     (let n = nat (max p 1) in
      Inr (if n \<le> length pages then pages ! (n - 1) else [], if n < length pages then int n + 1 else 0))"

lemma page_loop_serve:
  assumes "1 \<le> n" and "n \<le> length pages" and "page = int n \<or> (page = 0 \<and> n = 1)"
  shows "page_loop (serve_pages pages) f page acc = Some (Inr (acc @ concat (map f (drop (n - 1) pages))))"
  using assms
proof (induction "length pages - n" arbitrary: n page acc)
  case 0
  then have "nat (max page 1) = n" "n = length pages" by auto
  moreover have "drop (n - 1) pages = [pages ! (n - 1)]"
    using Cons_nth_drop_Suc [of "n - 1" pages] 0 by simp
  ultimately show ?case by (subst page_loop.simps) (simp add: serve_pages_def Let_def)
next
  case (Suc k)
  then have n: "nat (max page 1) = n" "n < length pages" by auto
  have "page_loop (serve_pages pages) f page acc
      = page_loop (serve_pages pages) f (int (Suc n)) (acc @ f (pages ! (n - 1)))"
    using n by (subst page_loop.simps) (simp add: serve_pages_def Let_def add.commute)
  also have "\<dots> = Some (Inr ((acc @ f (pages ! (n - 1))) @ concat (map f (drop (Suc n - 1) pages))))"
    using Suc n by (intro Suc.hyps(1)) auto
  also have "drop (n - 1) pages = pages ! (n - 1) # drop n pages"
    using Cons_nth_drop_Suc [of "n - 1" pages] n Suc.prems(1) by simp
  then have "(acc @ f (pages ! (n - 1))) @ concat (map f (drop (Suc n - 1) pages)) = acc @ concat (map f (drop (n - 1) pages))"
    by simp
  finally show ?case .
qed

section \<open>The platform interface\<close>

text \<open>
  What the HTTP server and the dispatcher rely on: an event that an adapter returns is one of
  its own platform, for a repository it allows. \<open>'g\<close> is the adapter's state.
\<close>

locale platform_adapter =
  fixes name :: "'g \<Rightarrow> string"
    and allows :: "'g \<Rightarrow> string \<Rightarrow> bool"
    and parse :: "http_request \<Rightarrow> string \<Rightarrow> 'g \<Rightarrow> webhook_result \<times> 'g"
  assumes parse_event: "parse r body g = (Inr (Some ev), g') \<Longrightarrow>
      repo_Platform (ev_Repo ev) = name g \<and> allows g (repo_FullName (ev_Repo ev))"
    and parse_name: "parse r body g = (res, g') \<Longrightarrow> name g' = name g \<and> allows g' = allows g"
begin

lemma parse_key:
  "parse r body g = (Inr (Some ev), g') \<Longrightarrow> Key (ev_Repo ev) = name g @ '':'' @ repo_FullName (ev_Repo ev)"
  using parse_event by (simp add: Key_def)

end

end
