(* ===== verification/ServeMux.thy ===== *)
theory ServeMux
  imports Forge
begin

text \<open>
  The routing table of \<open>net/http\<close> as far as the server relies on it
  (\<open>src/internal/server/server.go\<close>, \<open>New\<close>): how a pattern is parsed, when two patterns conflict, and that
  registering a malformed or a conflicting pattern panics. All patterns of the program have a method.
  \<open>ident\<close> decides whether a wildcard name that is not ASCII is an identifier (the Unicode tables).
\<close>

section \<open>Patterns\<close>

text \<open>A literal segment, a wildcard for one segment, or (\<open>multi\<close>) for the rest of the path.\<close>

datatype segment = Lit string | Wild | Multi

record mux_pattern =
  pat_host :: string
  pat_segments :: "segment list"

definition hex_val :: "char \<Rightarrow> nat option" where
  "hex_val c = (let n = of_char c :: nat in
     if 48 \<le> n \<and> n \<le> 57 then Some (n - 48)
     else if 65 \<le> n \<and> n \<le> 70 then Some (n - 55)
     else if 97 \<le> n \<and> n \<le> 102 then Some (n - 87) else None)"

text \<open>\<open>url.PathUnescape\<close>; \<open>pathUnescape\<close> keeps a segment with a malformed escape.\<close>

fun unescape :: "string \<Rightarrow> string option" where
  "unescape [] = Some []"
| "unescape (c # s) =
     (if c \<noteq> CHR ''%'' then map_option ((#) c) (unescape s)
      else case s of
             h # l # rest \<Rightarrow>
               (case (hex_val h, hex_val l) of
                  (Some a, Some b) \<Rightarrow> map_option ((#) (char_of (16 * a + b))) (unescape rest)
                | _ \<Rightarrow> None)
           | _ \<Rightarrow> None)"

definition pathUnescape :: "string \<Rightarrow> string" where
  "pathUnescape s = (case unescape s of None \<Rightarrow> s | Some t \<Rightarrow> t)"

definition ascii_letter :: "char \<Rightarrow> bool" where
  "ascii_letter c \<longleftrightarrow> (let n = of_char c :: nat in 65 \<le> n \<and> n \<le> 90 \<or> 97 \<le> n \<and> n \<le> 122 \<or> n = 95)"

definition isValidWildcardName :: "(string \<Rightarrow> bool) \<Rightarrow> string \<Rightarrow> bool" where
  "isValidWildcardName ident s \<longleftrightarrow> s \<noteq> [] \<and>
     (if list_all is_ascii s then ascii_letter (hd s) \<and> list_all (\<lambda>c. ascii_letter c \<or> is_digit c) s else ident s)"

definition dots_suffix :: "string \<Rightarrow> bool" where
  "dots_suffix s \<longleftrightarrow> 3 \<le> length s \<and> drop (length s - 3) s = ''...''"

text \<open>The segments between the slashes; an empty last one is a trailing slash. \<^const>\<open>None\<close> is an error.\<close>

fun parse_segments :: "(string \<Rightarrow> bool) \<Rightarrow> string list \<Rightarrow> string list \<Rightarrow> segment list option" where
  "parse_segments ident seen [] = Some []"
| "parse_segments ident seen (seg # segs) =
     (if seg = [] \<and> segs = [] then Some [Multi]
      else if CHR ''{'' \<notin> set seg then map_option ((#) (Lit (pathUnescape seg))) (parse_segments ident seen segs)
      else if hd seg \<noteq> CHR ''{'' \<or> last seg \<noteq> CHR ''}'' then None
      else let name = butlast (tl seg) in
           if name = ''$'' then (if segs \<noteq> [] then None else Some [Lit ''/''])
           else let multi = dots_suffix name; name = (if multi then take (length name - 3) name else name) in
                if multi \<and> segs \<noteq> [] \<or> \<not> isValidWildcardName ident name \<or> name \<in> set seen then None
                else map_option ((#) (if multi then Multi else Wild)) (parse_segments ident (name # seen) segs))"

text \<open>\<open>rest = cleanPath(rest)\<close> for a path that starts with a slash, given its segments.\<close>

definition clean_segments :: "string list \<Rightarrow> bool" where
  "clean_segments segs \<longleftrightarrow> [] \<notin> set (butlast segs) \<and> ''.'' \<notin> set segs \<and> ''..'' \<notin> set segs"

text \<open>\<open>parsePattern\<close> on a method, a space and \<open>path\<close>.\<close>

definition parsePattern :: "(string \<Rightarrow> bool) \<Rightarrow> string \<Rightarrow> mux_pattern option" where
  "parsePattern ident path =
     (let rest = dropWhile (\<lambda>c. c = CHR '' '' \<or> c = CHR 0x09) path;
          host = takeWhile (\<lambda>c. c \<noteq> CHR ''/'') rest;
          segs = split_at (CHR ''/'') (drop (length host + 1) rest)
      in if CHR ''/'' \<notin> set rest \<or> CHR ''{'' \<in> set host \<or> \<not> clean_segments segs then None
         else map_option (\<lambda>ss. \<lparr>pat_host = host, pat_segments = ss\<rparr>) (parse_segments ident [] segs))"

section \<open>Conflicts\<close>

datatype relationship = Equivalent | MoreGeneral | MoreSpecific | Overlaps | Disjoint

fun inverseRelationship :: "relationship \<Rightarrow> relationship" where
  "inverseRelationship MoreGeneral = MoreSpecific"
| "inverseRelationship MoreSpecific = MoreGeneral"
| "inverseRelationship r = r"

fun combineRelationships :: "relationship \<Rightarrow> relationship \<Rightarrow> relationship" where
  "combineRelationships Equivalent r = r"
| "combineRelationships Disjoint r = Disjoint"
| "combineRelationships Overlaps r = (if r = Disjoint then Disjoint else Overlaps)"
| "combineRelationships r1 r2 =
     (if r2 = Equivalent then r1 else if r2 = inverseRelationship r1 then Overlaps else r2)"

fun compareSegments :: "segment \<Rightarrow> segment \<Rightarrow> relationship" where
  "compareSegments Multi Multi = Equivalent"
| "compareSegments Multi s = MoreGeneral"
| "compareSegments s Multi = MoreSpecific"
| "compareSegments Wild Wild = Equivalent"
| "compareSegments Wild (Lit s) = (if s = ''/'' then Disjoint else MoreGeneral)"
| "compareSegments (Lit s) Wild = (if s = ''/'' then Disjoint else MoreSpecific)"
| "compareSegments (Lit s) (Lit t) = (if s = t then Equivalent else Disjoint)"

fun compare_loop :: "bool \<Rightarrow> bool \<Rightarrow> relationship \<Rightarrow> segment list \<Rightarrow> segment list \<Rightarrow> relationship" where
  "compare_loop m1 m2 rel (s1 # ss1) (s2 # ss2) =
     (let rel = combineRelationships rel (compareSegments s1 s2) in
      if rel = Disjoint then Disjoint else compare_loop m1 m2 rel ss1 ss2)"
| "compare_loop m1 m2 rel [] [] = rel"
| "compare_loop m1 m2 rel [] ss2 = (if m1 then combineRelationships rel MoreGeneral else Disjoint)"
| "compare_loop m1 m2 rel ss1 [] = (if m2 then combineRelationships rel MoreSpecific else Disjoint)"

definition comparePaths :: "segment list \<Rightarrow> segment list \<Rightarrow> relationship" where
  "comparePaths ss1 ss2 =
     (let m1 = (last ss1 = Multi); m2 = (last ss2 = Multi) in
      if length ss1 \<noteq> length ss2 \<and> \<not> m1 \<and> \<not> m2 then Disjoint else compare_loop m1 m2 Equivalent ss1 ss2)"

text \<open>For two patterns with the same method.\<close>

definition conflictsWith :: "mux_pattern \<Rightarrow> mux_pattern \<Rightarrow> bool" where
  "conflictsWith p1 p2 \<longleftrightarrow> pat_host p1 = pat_host p2
     \<and> comparePaths (pat_segments p1) (pat_segments p2) \<in> {Equivalent, Overlaps}"

section \<open>Registration\<close>

type_synonym 'e routes = "((string \<times> string) \<times> 'e) list"

text \<open>Patterns with the methods GET and POST are disjoint when the methods differ.\<close>

definition clashes :: "(string \<Rightarrow> bool) \<Rightarrow> string \<times> string \<Rightarrow> string \<times> string \<Rightarrow> bool" where
  "clashes ident new old \<longleftrightarrow> fst new = fst old \<and>
     (case (parsePattern ident (snd new), parsePattern ident (snd old)) of
        (Some p, Some q) \<Rightarrow> conflictsWith p q | _ \<Rightarrow> False)"

fun mux_register :: "(string \<Rightarrow> bool) \<Rightarrow> 'e routes \<Rightarrow> 'e routes \<Rightarrow> 'e routes option" where
  "mux_register ident mux [] = Some mux"
| "mux_register ident mux ((pat, e) # rest) =
     (if parsePattern ident (snd pat) = None \<or> list_ex (\<lambda>r. clashes ident pat (fst r)) mux then None
      else mux_register ident (mux @ [(pat, e)]) rest)"

section \<open>What registration accepts\<close>

lemma mux_register_eq:
  "mux_register ident mux regs =
     (if list_all (\<lambda>(pat, _). parsePattern ident (snd pat) \<noteq> None) regs
         \<and> sorted_wrt (\<lambda>old new. \<not> clashes ident (fst new) (fst old)) regs
         \<and> (\<forall>old \<in> set mux. \<forall>new \<in> set regs. \<not> clashes ident (fst new) (fst old))
      then Some (mux @ regs) else None)"
proof (induction ident mux regs rule: mux_register.induct)
  case (2 ident mux pat e rest)
  show ?case
  proof (cases "parsePattern ident (snd pat) = None \<or> list_ex (\<lambda>r. clashes ident pat (fst r)) mux")
    case True
    then show ?thesis by (auto simp: list_ex_iff)
  next
    case False
    then show ?thesis using "2.IH" [OF False] by (auto simp: list_ex_iff)
  qed
qed simp

text \<open>A literal path: rooted, clean, without wildcards and escapes; it may end in a slash.\<close>

definition plain_path :: "string \<Rightarrow> bool" where
  "plain_path p \<longleftrightarrow> p \<noteq> [] \<and> hd p = CHR ''/'' \<and> CHR ''{'' \<notin> set p \<and> CHR ''%'' \<notin> set p
     \<and> clean_segments (split_at (CHR ''/'') (tl p))"

fun plain_segments :: "string list \<Rightarrow> segment list" where
  "plain_segments [] = []"
| "plain_segments (seg # segs) = (if seg = [] \<and> segs = [] then [Multi] else Lit seg # plain_segments segs)"

lemma unescape_plain: "CHR ''%'' \<notin> set s \<Longrightarrow> unescape s = Some s"
  by (induction s) auto

lemma parse_segments_plain:
  assumes "\<forall>seg \<in> set segs. CHR ''{'' \<notin> set seg \<and> CHR ''%'' \<notin> set seg"
  shows "parse_segments ident seen segs = Some (plain_segments segs)"
  using assms by (induction segs) (auto simp: pathUnescape_def unescape_plain)

lemma split_at_not_Nil [simp]: "split_at sep s \<noteq> []"
  by (induction s) (auto split: list.splits)

lemma split_at_chars: "\<forall>w \<in> set (split_at sep s). set w \<subseteq> set s"
proof (induction s)
  case (Cons c s)
  then show ?case by (cases "split_at sep s") auto
qed simp

lemma split_at_inj: "split_at sep s = split_at sep t \<Longrightarrow> s = t"
proof (induction s arbitrary: t)
  case Nil
  then show ?case by (cases t) (auto split: list.splits if_splits)
next
  case (Cons c s)
  show ?case
  proof (cases t)
    case Nil
    with Cons.prems show ?thesis by (auto split: list.splits if_splits)
  next
    case (Cons d t')
    with Cons.prems Cons.IH [of t'] show ?thesis
      by (auto split: list.splits if_splits)
  qed
qed

lemma parsePattern_plain:
  assumes "plain_path p"
  shows "parsePattern ident p = Some \<lparr>pat_host = [], pat_segments = plain_segments (split_at (CHR ''/'') (tl p))\<rparr>"
proof -
  obtain s where p: "p = CHR ''/'' # s" using assms by (cases p) (auto simp: plain_path_def)
  have "\<forall>seg \<in> set (split_at (CHR ''/'') s). CHR ''{'' \<notin> set seg \<and> CHR ''%'' \<notin> set seg"
    using assms split_at_chars [of "CHR ''/''" s] by (auto simp: plain_path_def p)
  then show ?thesis using assms by (simp add: parsePattern_def p plain_path_def parse_segments_plain Let_def)
qed

lemma plain_segments_inj: "plain_segments xs = plain_segments ys \<Longrightarrow> xs = ys"
proof (induction xs arbitrary: ys)
  case Nil
  then show ?case by (cases ys) (auto split: if_splits)
next
  case (Cons x xs)
  then show ?case by (cases ys) (auto split: if_splits)
qed

lemma plain_segments_neq_Nil: "xs \<noteq> [] \<Longrightarrow> plain_segments xs \<noteq> []"
  by (cases xs) auto

lemma compare_loop_diverged:
  assumes "rel \<in> {MoreGeneral, MoreSpecific}" "rel = MoreGeneral \<Longrightarrow> ss1 = []" "rel = MoreSpecific \<Longrightarrow> ss2 = []"
  shows "compare_loop m1 m2 rel ss1 ss2 \<notin> {Equivalent, Overlaps}"
  using assms by (cases ss1; cases ss2) auto

lemma compare_loop_plain:
  "compare_loop m1 m2 Equivalent (plain_segments xs) (plain_segments ys) \<in> {Equivalent, Overlaps} \<longleftrightarrow> xs = ys"
proof (induction xs arbitrary: ys)
  case Nil
  then show ?case by (cases ys) auto
next
  case (Cons x xs)
  show ?case
  proof (cases ys)
    case Nil
    then show ?thesis by auto
  next
    case (Cons y ys')
    then show ?thesis
      using Cons.IH [of ys'] compare_loop_diverged [of MoreGeneral "[]" "plain_segments ys'" m1 m2]
        compare_loop_diverged [of MoreSpecific "plain_segments xs" "[]" m1 m2]
      by auto
  qed
qed

lemma comparePaths_plain:
  "comparePaths (plain_segments xs) (plain_segments ys) \<in> {Equivalent, Overlaps} \<longleftrightarrow> xs = ys"
  using compare_loop_plain [of _ _ xs ys] by (auto simp: comparePaths_def Let_def)

lemma clashes_plain:
  assumes "plain_path p" "plain_path q"
  shows "clashes ident (m, p) (m', q) \<longleftrightarrow> m = m' \<and> p = q"
proof -
  have "split_at (CHR ''/'') (tl p) = split_at (CHR ''/'') (tl q) \<longleftrightarrow> p = q"
    using assms split_at_inj [of "CHR ''/''" "tl p" "tl q"] unfolding plain_path_def
    by (metis list.collapse)
  then show ?thesis using comparePaths_plain [of "split_at (CHR ''/'') (tl p)" "split_at (CHR ''/'') (tl q)"]
    by (simp add: clashes_def parsePattern_plain assms conflictsWith_def)
qed

text \<open>Every pattern conflicts with itself.\<close>

lemma compare_loop_self: "compare_loop m1 m2 Equivalent ss ss = Equivalent"
proof (induction ss)
  case (Cons s ss)
  then show ?case by (cases s) simp_all
qed simp

lemma conflictsWith_self: "conflictsWith p p"
  by (simp add: conflictsWith_def comparePaths_def compare_loop_self)

end
