(* ===== verification/GitLab.thy ===== *)
theory GitLab
  imports Forge
begin

text \<open>
  The GitLab adapter (\<open>src/internal/platform/gitlab/gitlab.go\<close>): webhook authentication in its
  two modes, the mapping of webhook payloads to run requests, and project discovery. The
  GitLab client package is a parameter: the payload it parses (\<open>hook\<close>), the user lookup and the
  project listing.
\<close>

section \<open>The adapter\<close>

record GitLab =
  gl_name :: string
  gl_webhookPath :: string
  gl_secret :: string
  gl_signingSecret :: string
  gl_botEmail :: string
  gl_dashboardIssueTitle :: string
  gl_allowAnyCheckbox :: bool
  gl_mrFilter :: MRFilter
  gl_events :: "string list"
  gl_groups :: "string list"
  gl_excludeArchived :: bool
  gl_schedule :: Schedule
  gl_usernames :: "int \<rightharpoonup> string"

text \<open>\<open>clientOk\<close>: whether \<open>gogitlab.NewClient\<close> accepts the token and the URL.\<close>

definition gitlab_New :: "(string \<Rightarrow> string \<Rightarrow> bool) \<Rightarrow> PlatformConfig \<Rightarrow> string + GitLab" where
  "gitlab_New clientOk cfg =
     (if \<not> clientOk (pc_Token cfg) (pc_BaseURL cfg) then Inl ''create gitlab client''
      else Inr \<lparr>gl_name = pc_Name cfg, gl_webhookPath = wh_Path (pc_Webhook cfg), gl_secret = wh_Secret (pc_Webhook cfg),
        gl_signingSecret = wh_SigningSecret (pc_Webhook cfg), gl_botEmail = pc_BotEmail cfg,
        gl_dashboardIssueTitle = pc_DashboardIssueTitle cfg, gl_allowAnyCheckbox = pc_AllowAnyCheckbox cfg,
        gl_mrFilter = pc_MRFilter cfg, gl_events = pc_Events cfg, gl_groups = disc_Groups (pc_Discovery cfg),
        gl_excludeArchived = disc_ExcludeArchived (pc_Discovery cfg), gl_schedule = pc_Schedule cfg,
        gl_usernames = Map.empty\<rparr>)"

definition gitlab_AllowsRepo :: "(string \<Rightarrow> string) \<Rightarrow> GitLab \<Rightarrow> string \<Rightarrow> bool" where
  "gitlab_AllowsRepo uni g fullName = RepoAllowed uni (gl_groups g) fullName"

section \<open>Authentication\<close>

text \<open>
  \<open>time.Unix(ts, 0)\<close> counts seconds from the year 1 in 64 bits, so a timestamp near the end of
  the range wraps around; \<open>time.Since\<close> saturates at the ends of the range of a duration; and
  \<open>-skew\<close> of the smallest duration is itself.
\<close>

definition wrap64 :: "int \<Rightarrow> int" where
  "wrap64 n = (n + 2 ^ 63) mod 2 ^ 64 - 2 ^ 63"

definition time_Unix :: "int \<Rightarrow> go_time" where
  "time_Unix ts = (wrap64 (ts + 62135596800) - 62135596800) * second"

definition time_Since :: "go_time \<Rightarrow> go_time \<Rightarrow> duration" where
  "time_Since now t = max minDuration (min maxDuration (now - t))"

definition webhookTimestampTolerance :: duration where
  "webhookTimestampTolerance = 5 * minute"

definition skew_ok :: "go_time \<Rightarrow> int \<Rightarrow> bool" where
  "skew_ok now ts =
     (let skew = time_Since now (time_Unix ts);
          skew = (if skew < 0 then wrap64 (- skew) else skew)
      in \<not> skew > webhookTimestampTolerance)"

definition expected_signature :: "string \<Rightarrow> string \<Rightarrow> string \<Rightarrow> string \<Rightarrow> string" where
  "expected_signature rawKey msgID timestamp body =
     ''v1,'' @ b64_encode (hmac_sha256 rawKey (msgID @ ''.'' @ timestamp @ ''.'' @ body))"

definition validWebhookSignature ::
  "go_time \<Rightarrow> string \<Rightarrow> string \<Rightarrow> string \<Rightarrow> string \<Rightarrow> string \<Rightarrow> bool" where
  "validWebhookSignature now signingToken msgID timestamp signatures body =
     (case ParseInt64 timestamp of
        None \<Rightarrow> False
      | Some ts \<Rightarrow>
          if \<not> skew_ok now ts then False
          else (case b64_decode (trimPrefix signingToken ''whsec_'') of
                  None \<Rightarrow> False
                | Some rawKey \<Rightarrow>
                    if length rawKey = 0 then False
                    else foldl (\<lambda>ok sig. if expected_signature rawKey msgID timestamp body = sig then True else ok)
                           False (split_at (CHR '' '') signatures)))"

definition gitlab_authorizeWebhook :: "go_time \<Rightarrow> GitLab \<Rightarrow> http_request \<Rightarrow> string \<Rightarrow> webhook_error option" where
  "gitlab_authorizeWebhook now g r body =
     (let sig = Header r ''Webhook-Signature'' in
      if gl_signingSecret g \<noteq> [] \<and> sig \<noteq> [] then
        (if \<not> validWebhookSignature now (gl_signingSecret g) (Header r ''Webhook-Id'')
               (Header r ''Webhook-Timestamp'') sig body
         then Some ErrUnauthorized else None)
      else if gl_secret g = [] then Some ErrUnauthorized
      else let token = Header r ''X-Gitlab-Token'' in
        if token \<noteq> gl_secret g then Some ErrUnauthorized else None)"

section \<open>Payloads\<close>

text \<open>The fields of the parsed payloads that the adapter reads.\<close>

record gl_merge =
  me_Path :: string
  me_Previous :: string
  me_Current :: string
  me_Description :: string
  me_SourceBranch :: string
  me_AuthorID :: int

record gl_issue =
  ie_Path :: string
  ie_Title :: string
  ie_Description :: string
  ie_Previous :: string
  ie_Current :: string

record gl_push =
  pu_Path :: string
  pu_UserEmail :: string
  pu_Ref :: string
  pu_DefaultBranch :: string

datatype gl_hook = MergeEvent gl_merge | IssueEvent gl_issue | PushEvent gl_push | OtherEvent

definition tickedPlain :: "string \<Rightarrow> string \<Rightarrow> bool" where
  "tickedPlain previous current = (if current = [] then False else CheckedItems current > CheckedItems previous)"

text \<open>The user lookup of the API: \<^const>\<open>None\<close> is an error.\<close>

definition authorUsername :: "(int \<rightharpoonup> string) \<Rightarrow> int \<Rightarrow> GitLab \<Rightarrow> string \<times> GitLab" where
  "authorUsername getUser uid g =
     (if uid = 0 then ('''', g)
      else case gl_usernames g uid of
             Some name \<Rightarrow> (name, g)
           | None \<Rightarrow>
               (case getUser uid of
                  None \<Rightarrow> ('''', g)
                | Some username \<Rightarrow> (username, g\<lparr>gl_usernames := (gl_usernames g)(uid \<mapsto> username)\<rparr>)))"

text \<open>A nil slice of prefixes ranges over nothing.\<close>

definition isRenovateMR :: "(int \<rightharpoonup> string) \<Rightarrow> gl_merge \<Rightarrow> GitLab \<Rightarrow> bool \<times> GitLab" where
  "isRenovateMR getUser ev g =
     (if HasRenovateDebugMarker (me_Description ev) then (True, g)
      else if BranchHasPrefix (case mr_SourceBranchPrefixes (gl_mrFilter g) of None \<Rightarrow> [] | Some ps \<Rightarrow> ps) (me_SourceBranch ev)
        then (True, g)
      else if mr_Authors (gl_mrFilter g) = [] then (False, g)
      else case authorUsername getUser (me_AuthorID ev) g of
             (username, g) \<Rightarrow> (username \<noteq> [] \<and> username \<in> set (mr_Authors (gl_mrFilter g)), g))"

definition mrTicked :: "(int \<rightharpoonup> string) \<Rightarrow> gl_merge \<Rightarrow> GitLab \<Rightarrow> bool \<times> GitLab" where
  "mrTicked getUser ev g =
     (if me_Current ev = [] then (False, g)
      else case (if gl_allowAnyCheckbox g then (True, g) else isRenovateMR getUser ev g) of
             (True, g) \<Rightarrow> (CheckedItems (me_Current ev) > CheckedItems (me_Previous ev), g)
           | (False, g) \<Rightarrow> (CheckedMarkerItems (me_Current ev) > CheckedMarkerItems (me_Previous ev), g))"

definition gitlab_event :: "(string \<Rightarrow> string) \<Rightarrow> GitLab \<Rightarrow> string \<Rightarrow> reason \<Rightarrow> Event option" where
  "gitlab_event uni g fullName reason =
     (if \<not> RepoAllowed uni (gl_groups g) fullName then None
      else Some \<lparr>ev_Repo = \<lparr>repo_Platform = gl_name g, repo_FullName = fullName\<rparr>, ev_Reason = reason\<rparr>)"

section \<open>ParseWebhook\<close>

definition gitlab_issue :: "(string \<Rightarrow> string) \<Rightarrow> gl_issue \<Rightarrow> GitLab \<Rightarrow> Event option" where
  "gitlab_issue uni ev g =
     (if ''issue'' \<notin> set (gl_events g) then None
      else let identified = (gl_allowAnyCheckbox g \<or> gl_dashboardIssueTitle g = ''*''
                 \<or> ie_Title ev = gl_dashboardIssueTitle g \<or> HasRenovateDebugMarker (ie_Description ev));
               prev = ie_Previous ev; cur = ie_Current ev
           in if identified then
                (if \<not> tickedPlain prev cur then None else gitlab_event uni g (ie_Path ev) ReasonIssue)
              else if cur = [] \<or> CheckedMarkerItems cur \<le> CheckedMarkerItems prev then None
              else gitlab_event uni g (ie_Path ev) ReasonIssue)"

definition gitlab_push :: "(string \<Rightarrow> string) \<Rightarrow> gl_push \<Rightarrow> GitLab \<Rightarrow> Event option" where
  "gitlab_push uni ev g =
     (if ''push'' \<notin> set (gl_events g) then None
      else if gl_botEmail g \<noteq> [] \<and> pu_UserEmail ev = gl_botEmail g then None
      else if pu_Ref ev \<noteq> ''refs/heads/'' @ pu_DefaultBranch ev then None
      else gitlab_event uni g (pu_Path ev) ReasonPush)"

definition gitlab_merge :: "(string \<Rightarrow> string) \<Rightarrow> (int \<rightharpoonup> string) \<Rightarrow> gl_merge \<Rightarrow> GitLab \<Rightarrow> Event option \<times> GitLab" where
  "gitlab_merge uni getUser ev g =
     (if ''merge_request'' \<notin> set (gl_events g) then (None, g)
      else case mrTicked getUser ev g of
             (False, g) \<Rightarrow> (None, g)
           | (True, g) \<Rightarrow> (gitlab_event uni g (me_Path ev) ReasonMergeRequest, g))"

text \<open>\<open>parseHook\<close> is \<open>gogitlab.ParseWebhook(gogitlab.WebhookEventType(r), body)\<close>.\<close>

definition gitlab_ParseWebhook ::
  "(string \<Rightarrow> string) \<Rightarrow> (http_request \<Rightarrow> string \<Rightarrow> string + gl_hook) \<Rightarrow> (int \<rightharpoonup> string) \<Rightarrow> go_time \<Rightarrow>
   http_request \<Rightarrow> string \<Rightarrow> GitLab \<Rightarrow> webhook_result \<times> GitLab" where
  "gitlab_ParseWebhook uni parseHook getUser now r body g =
     (case gitlab_authorizeWebhook now g r body of
        Some err \<Rightarrow> (Inl err, g)
      | None \<Rightarrow>
          (case parseHook r body of
             Inl err \<Rightarrow> (Inl (ParseError (''parse gitlab webhook: '' @ err)), g)
           | Inr (MergeEvent ev) \<Rightarrow> (case gitlab_merge uni getUser ev g of (e, g) \<Rightarrow> (Inr e, g))
           | Inr (IssueEvent ev) \<Rightarrow> (Inr (gitlab_issue uni ev g), g)
           | Inr (PushEvent ev) \<Rightarrow> (Inr (gitlab_push uni ev g), g)
           | Inr OtherEvent \<Rightarrow> (Inr None, g)))"

section \<open>DiscoverRepos\<close>

fun project_repos :: "string \<Rightarrow> string list \<Rightarrow> Repo list" where
  "project_repos platformName [] = []"
| "project_repos platformName (p # projects) =
     (let name = TrimSpace p in
      if name = [] then project_repos platformName projects
      else \<lparr>repo_Platform = platformName, repo_FullName = name\<rparr> # project_repos platformName projects)"

text \<open>
  The listing of the client: group, archived filter (\<^const>\<open>None\<close> when unset) and page to the
  \<open>PathWithNamespace\<close> of the projects and the next page. An error of the result names the group.
\<close>

fun gitlab_groups_loop ::
  "(string \<Rightarrow> bool option \<Rightarrow> int \<Rightarrow> string + (string list \<times> int)) \<Rightarrow> GitLab \<Rightarrow> string list \<Rightarrow> Repo list \<Rightarrow>
   (string \<times> string + Repo list) option" where
  "gitlab_groups_loop listProjects g [] repos = Some (Inr repos)"
| "gitlab_groups_loop listProjects g (grp # groups) repos =
     (let archived = (if gl_excludeArchived g then Some False else None)
      in case page_loop (listProjects grp archived) (project_repos (gl_name g)) 0 repos of
           None \<Rightarrow> None
         | Some (Inl err) \<Rightarrow> Some (Inl (grp, err))
         | Some (Inr repos) \<Rightarrow> gitlab_groups_loop listProjects g groups repos)"

definition gitlab_DiscoverRepos ::
  "(string \<Rightarrow> bool option \<Rightarrow> int \<Rightarrow> string + (string list \<times> int)) \<Rightarrow> GitLab \<Rightarrow> (string \<times> string + Repo list) option" where
  "gitlab_DiscoverRepos listProjects g = gitlab_groups_loop listProjects g (gl_groups g) []"

section \<open>Signatures\<close>

lemma foldl_found: "foldl (\<lambda>ok x. if e = x then True else ok) b xs \<longleftrightarrow> b \<or> e \<in> set xs"
  by (induction xs arbitrary: b) auto

lemma validWebhookSignature_iff:
  "validWebhookSignature now signingToken msgID timestamp signatures body \<longleftrightarrow>
     (\<exists>ts rawKey. ParseInt64 timestamp = Some ts \<and> skew_ok now ts
        \<and> b64_decode (trimPrefix signingToken ''whsec_'') = Some rawKey \<and> rawKey \<noteq> []
        \<and> expected_signature rawKey msgID timestamp body \<in> set (split_at (CHR '' '') signatures))"
  unfolding validWebhookSignature_def foldl_found by (auto split: option.splits)

lemma wrap64_id: "- (2 ^ 63) \<le> n \<Longrightarrow> n < 2 ^ 63 \<Longrightarrow> wrap64 n = n"
  by (simp add: wrap64_def)

lemma time_Unix_exact:
  assumes "- (2 ^ 63) \<le> ts" and "ts < 2 ^ 63 - 62135596800"
  shows "time_Unix ts = ts * second"
  using wrap64_id [of "ts + 62135596800"] assms by (simp add: time_Unix_def)

lemma skew_ok_iff:
  assumes "- (2 ^ 63) \<le> ts" and "ts < 2 ^ 63 - 62135596800"
  shows "skew_ok now ts \<longleftrightarrow> \<bar>now - ts * second\<bar> \<le> 5 * minute \<or> now + 2 ^ 63 \<le> ts * second"
proof -
  define x where "x = now - ts * second"
  have sk: "skew_ok now ts \<longleftrightarrow> (let s = time_Since now (ts * second) in (if s < 0 then wrap64 (- s) else s) \<le> 5 * minute)"
    unfolding skew_ok_def time_Unix_exact [OF assms] webhookTimestampTolerance_def Let_def not_less ..
  have since: "time_Since now (ts * second) = max minDuration (min maxDuration x)"
    by (simp add: time_Since_def x_def)
  consider "x \<le> - (2 ^ 63)" | "- (2 ^ 63) < x" "x < 0" | "0 \<le> x" by linarith
  then have "(let s = max minDuration (min maxDuration x) in (if s < 0 then wrap64 (- s) else s) \<le> 5 * minute)
      \<longleftrightarrow> \<bar>x\<bar> \<le> 5 * minute \<or> x \<le> - (2 ^ 63)"
  proof cases
    case 1
    then have "max minDuration (min maxDuration x) = minDuration" by simp
    moreover have "wrap64 (- minDuration) = minDuration" by (simp add: wrap64_def)
    ultimately show ?thesis using 1 by (simp add: Let_def)
  next
    case 2
    then have "max minDuration (min maxDuration x) = x" by simp
    with 2 wrap64_id [of "- x"] show ?thesis by (simp add: Let_def)
  next
    case 3
    then have "max minDuration (min maxDuration x) = min maxDuration x" by simp
    with 3 show ?thesis by (simp add: Let_def min_def)
  qed
  then show ?thesis unfolding sk since x_def by (simp add: algebra_simps)
qed

text \<open>
  C36. What the replay window really accepts, for every timestamp that does not wrap around in
  \<open>time.Unix\<close>: the ones at most five minutes away, and also every one that lies at least
  2^63 nanoseconds (some 292 years) in the future, where the time difference saturates and its
  negation overflows.
\<close>

theorem replay_window_exact:
  assumes "- (2 ^ 63) \<le> ts" and "ts < 2 ^ 63 - 62135596800"
  shows "skew_ok now ts \<longleftrightarrow> \<bar>now - ts * second\<bar> \<le> 5 * minute \<or> now + 2 ^ 63 \<le> ts * second"
  using assms by (rule skew_ok_iff)

theorem replay_window_exact_witness:
  "skew_ok 0 300 \<and> \<not> skew_ok 0 301 \<and> skew_ok 0 99999999999"
  using replay_window_exact [of 300 0] replay_window_exact [of 301 0] replay_window_exact [of 99999999999 0] by simp

lemma split_at_single: "sep \<notin> set s \<Longrightarrow> split_at sep s = [s]"
  by (induction s) auto

lemma b64_char_not_space: "n < 64 \<Longrightarrow> CHR '' '' \<noteq> b64_char n"
proof -
  have "b64_val (CHR '' '') = None" by (simp add: b64_val_def Let_def)
  then show "n < 64 \<Longrightarrow> CHR '' '' \<noteq> b64_char n" using b64_val_char [of n] by (metis option.distinct(1))
qed

lemma b64_encode_no_space: "CHR '' '' \<notin> set (b64_encode s)"
proof (induction s rule: b64_encode.induct)
  case (2 a)
  then show ?case
    using char_sextets [of a "CHR 0x00" "CHR 0x00"] by (auto simp: Let_def b64_char_not_space)
next
  case (3 a b)
  then show ?case using char_sextets [of a b "CHR 0x00"] by (auto simp: Let_def b64_char_not_space)
next
  case (4 a b c s)
  then show ?case using char_sextets [of a b c] by (auto simp: Let_def b64_char_not_space)
qed simp



section \<open>Which deliveries are accepted\<close>

text \<open>The two ways to be authentic, from the comment of \<open>authorizeWebhook\<close>.\<close>

definition gitlab_authentic :: "go_time \<Rightarrow> GitLab \<Rightarrow> http_request \<Rightarrow> string \<Rightarrow> bool" where
  "gitlab_authentic now g r body \<longleftrightarrow>
     (if gl_signingSecret g \<noteq> [] \<and> Header r ''Webhook-Signature'' \<noteq> []
      then validWebhookSignature now (gl_signingSecret g) (Header r ''Webhook-Id'') (Header r ''Webhook-Timestamp'')
             (Header r ''Webhook-Signature'') body
      else gl_secret g \<noteq> [] \<and> Header r ''X-Gitlab-Token'' = gl_secret g)"

lemma authorize_iff:
  "gitlab_authorizeWebhook now g r body = (if gitlab_authentic now g r body then None else Some ErrUnauthorized)"
  by (auto simp: gitlab_authorizeWebhook_def gitlab_authentic_def Let_def)

lemma gitlab_event_Some:
  "gitlab_event uni g fullName reason = Some ev \<longleftrightarrow> RepoAllowed uni (gl_groups g) fullName
     \<and> ev = \<lparr>ev_Repo = \<lparr>repo_Platform = gl_name g, repo_FullName = fullName\<rparr>, ev_Reason = reason\<rparr>"
  by (auto simp: gitlab_event_def)

text \<open>The lookups change nothing but the cache.\<close>

definition same_config :: "GitLab \<Rightarrow> GitLab \<Rightarrow> bool" where
  "same_config g g' \<longleftrightarrow> g'\<lparr>gl_usernames := gl_usernames g\<rparr> = g"

lemma same_config_refl [simp]: "same_config g g"
  by (simp add: same_config_def)

lemma same_configD:
  "same_config g g' \<Longrightarrow> gl_name g' = gl_name g \<and> gl_groups g' = gl_groups g \<and> gl_events g' = gl_events g"
proof -
  have "g'\<lparr>gl_usernames := u\<rparr> = g \<Longrightarrow> gl_name g' = gl_name g \<and> gl_groups g' = gl_groups g \<and> gl_events g' = gl_events g" for u
    by auto
  then show "same_config g g' \<Longrightarrow> ?thesis" unfolding same_config_def .
qed

lemma authorUsername_config: "same_config g (snd (authorUsername getUser uid g))"
  by (auto simp: authorUsername_def same_config_def split: option.splits)

lemma isRenovateMR_config: "same_config g (snd (isRenovateMR getUser ev g))"
  using authorUsername_config [of g getUser "me_AuthorID ev"]
  by (auto simp: isRenovateMR_def split: prod.splits option.splits)

lemma mrTicked_config: "same_config g (snd (mrTicked getUser ev g))"
  using isRenovateMR_config [of g getUser ev] by (auto simp: mrTicked_def split: prod.splits bool.splits)

lemma mrTicked_count:
  assumes "mrTicked getUser ev g = (True, g')"
  shows "CheckedItems (me_Current ev) > CheckedItems (me_Previous ev)
    \<or> CheckedMarkerItems (me_Current ev) > CheckedMarkerItems (me_Previous ev)"
  using assms by (auto simp: mrTicked_def split: prod.splits bool.splits if_splits)

lemma gitlab_merge_config: "same_config g (snd (gitlab_merge uni getUser ev g))"
  using mrTicked_config [of g getUser ev] by (auto simp: gitlab_merge_def split: prod.splits bool.splits)

lemma gitlab_parse_config: "same_config g (snd (gitlab_ParseWebhook uni parseHook getUser now r body g))"
proof -
  have "same_config g g'" if "gitlab_merge uni getUser ev g = (e, g')" for ev e g'
    using gitlab_merge_config [of g uni getUser ev] that by simp
  then show ?thesis
    by (auto simp: gitlab_ParseWebhook_def split: option.splits sum.splits gl_hook.splits prod.splits)
qed

text \<open>What justifies the event of each kind of payload.\<close>

fun gitlab_justified :: "GitLab \<Rightarrow> gl_hook \<Rightarrow> Event \<Rightarrow> bool" where
  "gitlab_justified g (MergeEvent m) ev \<longleftrightarrow> ''merge_request'' \<in> set (gl_events g) \<and> ev_Reason ev = ReasonMergeRequest
     \<and> repo_FullName (ev_Repo ev) = me_Path m \<and> me_Current m \<noteq> []
     \<and> (CheckedItems (me_Current m) > CheckedItems (me_Previous m)
        \<or> CheckedMarkerItems (me_Current m) > CheckedMarkerItems (me_Previous m))"
| "gitlab_justified g (IssueEvent i) ev \<longleftrightarrow> ''issue'' \<in> set (gl_events g) \<and> ev_Reason ev = ReasonIssue
     \<and> repo_FullName (ev_Repo ev) = ie_Path i \<and> ie_Current i \<noteq> []
     \<and> (CheckedItems (ie_Current i) > CheckedItems (ie_Previous i)
        \<or> CheckedMarkerItems (ie_Current i) > CheckedMarkerItems (ie_Previous i))"
| "gitlab_justified g (PushEvent p) ev \<longleftrightarrow> ''push'' \<in> set (gl_events g) \<and> ev_Reason ev = ReasonPush
     \<and> repo_FullName (ev_Repo ev) = pu_Path p \<and> \<not> (gl_botEmail g \<noteq> [] \<and> pu_UserEmail p = gl_botEmail g)
     \<and> pu_Ref p = ''refs/heads/'' @ pu_DefaultBranch p"
| "gitlab_justified g OtherEvent ev \<longleftrightarrow> False"

lemma gitlab_merge_justified:
  assumes "gitlab_merge uni getUser m g = (Some ev, g')"
  shows "gitlab_justified g (MergeEvent m) ev \<and> repo_Platform (ev_Repo ev) = gl_name g
    \<and> RepoAllowed uni (gl_groups g) (repo_FullName (ev_Repo ev))"
proof -
  have ev: "''merge_request'' \<in> set (gl_events g)" using assms by (auto simp: gitlab_merge_def split: if_splits)
  with assms obtain t g1 where t: "mrTicked getUser m g = (t, g1)" and
    e: "t" "gitlab_event uni g1 (me_Path m) ReasonMergeRequest = Some ev"
    by (auto simp: gitlab_merge_def split: prod.splits bool.splits)
  have "same_config g g1" using mrTicked_config [of g getUser m] t by simp
  moreover have "me_Current m \<noteq> []" using t e(1) by (auto simp: mrTicked_def split: if_splits)
  ultimately show ?thesis using mrTicked_count [of getUser m g g1] t e ev same_configD [of g g1]
    by (auto simp: gitlab_event_Some)
qed

lemma gitlab_parse_Some:
  assumes "gitlab_ParseWebhook uni parseHook getUser now r body g = (Inr (Some ev), g')"
  shows "gitlab_authentic now g r body \<and> (\<exists>hook. parseHook r body = Inr hook \<and> gitlab_justified g hook ev)
    \<and> repo_Platform (ev_Repo ev) = gl_name g \<and> RepoAllowed uni (gl_groups g) (repo_FullName (ev_Repo ev))"
proof -
  have auth: "gitlab_authentic now g r body"
    using assms by (auto simp: gitlab_ParseWebhook_def authorize_iff split: if_splits)
  then obtain hook where hook: "parseHook r body = Inr hook"
    using assms by (auto simp: gitlab_ParseWebhook_def authorize_iff split: sum.splits)
  have "gitlab_justified g hook ev \<and> repo_Platform (ev_Repo ev) = gl_name g
      \<and> RepoAllowed uni (gl_groups g) (repo_FullName (ev_Repo ev))"
  proof (cases hook)
    case (MergeEvent m)
    with assms auth hook have "gitlab_merge uni getUser m g = (Some ev, g')"
      by (auto simp: gitlab_ParseWebhook_def authorize_iff split: prod.splits)
    from gitlab_merge_justified [OF this] MergeEvent show ?thesis by (simp only:)
  next
    case (IssueEvent i)
    with assms auth hook show ?thesis
      by (auto simp: gitlab_ParseWebhook_def authorize_iff gitlab_issue_def Let_def gitlab_event_Some tickedPlain_def
          split: if_splits)
  next
    case (PushEvent p)
    with assms auth hook show ?thesis
      by (auto simp: gitlab_ParseWebhook_def authorize_iff gitlab_push_def gitlab_event_Some split: if_splits)
  next
    case OtherEvent
    with assms auth hook show ?thesis by (simp add: gitlab_ParseWebhook_def authorize_iff)
  qed
  with auth hook show ?thesis by blast
qed

interpretation gl: platform_adapter gl_name "gitlab_AllowsRepo uni"
    "gitlab_ParseWebhook uni parseHook getUser now" for uni parseHook getUser now
proof unfold_locales
  fix r body g ev g'
  assume "gitlab_ParseWebhook uni parseHook getUser now r body g = (Inr (Some ev), g')"
  from gitlab_parse_Some [OF this]
  show "repo_Platform (ev_Repo ev) = gl_name g \<and> gitlab_AllowsRepo uni g (repo_FullName (ev_Repo ev))"
    by (simp add: gitlab_AllowsRepo_def)
next
  fix r body g res g'
  assume "gitlab_ParseWebhook uni parseHook getUser now r body g = (res, g')"
  with gitlab_parse_config [of g uni parseHook getUser now r body] have "same_config g g'" by simp
  from same_configD [OF this] show "gl_name g' = gl_name g \<and> gitlab_AllowsRepo uni g' = gitlab_AllowsRepo uni g"
    by (simp add: gitlab_AllowsRepo_def fun_eq_iff)
qed


definition sample_gitlab :: GitLab where
  "sample_gitlab = \<lparr>gl_name = ''gl'', gl_webhookPath = ''/hook'', gl_secret = ''s3cret'', gl_signingSecret = '''',
     gl_botEmail = ''bot@x'', gl_dashboardIssueTitle = ''Dependency Dashboard'', gl_allowAnyCheckbox = False,
     gl_mrFilter = \<lparr>mr_SourceBranchPrefixes = Some [''renovate/''], mr_Authors = []\<rparr>,
     gl_events = [''merge_request'', ''push''], gl_groups = [''top''], gl_excludeArchived = True,
     gl_schedule = \<lparr>sched_Crontabs = [], sched_Timezone = ''''\<rparr>, gl_usernames = Map.empty\<rparr>"

definition sample_push_hook :: "http_request \<Rightarrow> string \<Rightarrow> string + gl_hook" where
  "sample_push_hook r body = Inr (PushEvent \<lparr>pu_Path = ''top/api'', pu_UserEmail = ''dev@x'',
     pu_Ref = ''refs/heads/main'', pu_DefaultBranch = ''main''\<rparr>)"

definition sample_request :: "string \<Rightarrow> http_request" where
  "sample_request token = \<lparr>Header = (\<lambda>h. if h = ''X-Gitlab-Token'' then token else '''')\<rparr>"


text \<open>
  The author lookup is made once: after a lookup that succeeded, the same id is answered from
  the cache with the same name whatever the API would say then; a failed lookup is not cached
  and reads as the empty name.
\<close>

theorem username_lookup_is_cached:
  "case authorUsername getUser uid g of (name, g1) \<Rightarrow>
     (if name = [] then True else authorUsername getUser' uid g1 = (name, g1))
     \<and> (uid \<noteq> 0 \<and> gl_usernames g uid = None \<and> getUser uid = None \<longrightarrow> name = [] \<and> g1 = g)"
  by (auto simp: authorUsername_def split: option.splits)

theorem username_lookup_is_cached_witness:
  "authorUsername (\<lambda>_. None) 7 (sample_gitlab\<lparr>gl_usernames := [7 \<mapsto> ''renovate'']\<rparr>)
     = (''renovate'', sample_gitlab\<lparr>gl_usernames := [7 \<mapsto> ''renovate'']\<rparr>)
   \<and> authorUsername (\<lambda>_. None) 7 sample_gitlab = ('''', sample_gitlab)"
proof -
  have "authorUsername (\<lambda>_. Some ''renovate'') 7 sample_gitlab
      = (''renovate'', sample_gitlab\<lparr>gl_usernames := [7 \<mapsto> ''renovate'']\<rparr>)"
    by (simp add: authorUsername_def sample_gitlab_def)
  moreover have "gl_usernames sample_gitlab 7 = None" by (simp add: sample_gitlab_def)
  ultimately show ?thesis
    using username_lookup_is_cached [where getUser = "\<lambda>_. Some ''renovate''" and getUser' = "\<lambda>_. None" and uid = 7 and g = sample_gitlab]
      username_lookup_is_cached [where getUser = "\<lambda>_. None" and getUser' = "\<lambda>_. None" and uid = 7 and g = sample_gitlab]
    by (cases "authorUsername (\<lambda>_. None) 7 sample_gitlab") simp
qed

section \<open>Discovery\<close>

lemma gitlab_groups_loop_serve:
  assumes "\<And>grp. grp \<in> set groups \<Longrightarrow> pages grp \<noteq> []"
    and "\<And>grp p. grp \<in> set groups \<Longrightarrow>
      listProjects grp (if gl_excludeArchived g then Some False else None) p = serve_pages (pages grp) p"
  shows "gitlab_groups_loop listProjects g groups acc
    = Some (Inr (acc @ concat (map (\<lambda>grp. concat (map (project_repos (gl_name g)) (pages grp))) groups)))"
  using assms
proof (induction groups arbitrary: acc)
  case (Cons grp groups)
  have "listProjects grp (if gl_excludeArchived g then Some False else None) = serve_pages (pages grp)"
    using Cons.prems(2) [of grp] by auto
  moreover have "page_loop (serve_pages (pages grp)) (project_repos (gl_name g)) 0 acc
      = Some (Inr (acc @ concat (map (project_repos (gl_name g)) (pages grp))))"
    using page_loop_serve [of 1 "pages grp" 0] Cons.prems(1) [of grp] by (cases "pages grp") auto
  ultimately show ?case using Cons by (simp add: Let_def)
qed simp

text \<open>
  C37. Discovery is complete: if the API lists every configured group in pages, \<open>DiscoverRepos\<close>
  ends and returns, in order, one repository of this platform for each listed project of each
  page of each group, its path trimmed, leaving out blank paths.
\<close>

theorem gitlab_discovery_complete:
  assumes "\<forall>grp \<in> set (gl_groups g). pages grp \<noteq> []"
    and "\<forall>grp \<in> set (gl_groups g). \<forall>p.
      listProjects grp (if gl_excludeArchived g then Some False else None) p = serve_pages (pages grp) p"
  shows "gitlab_DiscoverRepos listProjects g
    = Some (Inr (map (\<lambda>path. \<lparr>repo_Platform = gl_name g, repo_FullName = TrimSpace path\<rparr>)
        (filter (\<lambda>path. TrimSpace path \<noteq> []) (concat (concat (map pages (gl_groups g)))))))"
proof -
  have pr: "project_repos n ps = map (\<lambda>path. \<lparr>repo_Platform = n, repo_FullName = TrimSpace path\<rparr>)
      (filter (\<lambda>path. TrimSpace path \<noteq> []) ps)" for n ps
    by (induction ps) (auto simp: Let_def)
  have cc: "concat (map (\<lambda>grp. concat (map (project_repos n) (pages grp))) gs)
      = project_repos n (concat (concat (map pages gs)))" for n gs
    by (induction gs) (simp_all add: pr map_concat filter_concat comp_def)
  from assms show ?thesis unfolding gitlab_DiscoverRepos_def
    by (subst gitlab_groups_loop_serve [where pages = pages]) (simp_all add: cc pr)
qed

theorem gitlab_discovery_complete_witness:
  "gitlab_DiscoverRepos (\<lambda>grp arch. serve_pages [[''top/a'', '' ''], [''top/b '']]) sample_gitlab
     = Some (Inr [\<lparr>repo_Platform = ''gl'', repo_FullName = ''top/a''\<rparr>, \<lparr>repo_Platform = ''gl'', repo_FullName = ''top/b''\<rparr>])"
proof -
  have t: "TrimSpace ''top/a'' = ''top/a''" "TrimSpace '' '' = ''''" "TrimSpace ''top/b '' = ''top/b''" by code_simp+
  show ?thesis
    using gitlab_discovery_complete [of sample_gitlab "\<lambda>_. [[''top/a'', '' ''], [''top/b '']]"
        "\<lambda>grp arch. serve_pages [[''top/a'', '' ''], [''top/b '']]"]
    by (simp add: t) (simp add: sample_gitlab_def t)
qed

end
