(* ===== verification/GitHub.thy ===== *)
theory GitHub
  imports Forge
begin

text \<open>
  The GitHub adapter (\<open>src/internal/platform/github/github.go\<close>). The go-github package is a
  parameter: the validation of the signature header, the parsed payload (with the zero values its
  getters return for what is missing) and the repository listing.
\<close>

section \<open>The adapter\<close>

record GitHub =
  gh_name :: string
  gh_webhookPath :: string
  gh_secret :: string
  gh_botEmail :: string
  gh_dashboardIssueTitle :: string
  gh_allowAnyCheckbox :: bool
  gh_mrFilter :: MRFilter
  gh_events :: "string list"
  gh_orgs :: "string list"
  gh_excludeArchived :: bool
  gh_schedule :: Schedule

text \<open>\<open>newClient\<close> is \<open>gogithub.NewClient\<close> with a token and, for an enterprise server, its URL.\<close>

definition github_New :: "(string \<Rightarrow> string option \<Rightarrow> bool) \<Rightarrow> PlatformConfig \<Rightarrow> string + GitHub" where
  "github_New newClient cfg =
     (let enterprise = (if pc_BaseURL cfg \<noteq> [] \<and> pc_BaseURL cfg \<noteq> ''https://github.com''
                        then Some (pc_BaseURL cfg) else None)
      in if \<not> newClient (pc_Token cfg) enterprise then Inl ''create github client''
         else Inr \<lparr>gh_name = pc_Name cfg, gh_webhookPath = wh_Path (pc_Webhook cfg),
           gh_secret = wh_Secret (pc_Webhook cfg), gh_botEmail = pc_BotEmail cfg,
           gh_dashboardIssueTitle = pc_DashboardIssueTitle cfg, gh_allowAnyCheckbox = pc_AllowAnyCheckbox cfg,
           gh_mrFilter = pc_MRFilter cfg, gh_events = pc_Events cfg, gh_orgs = disc_Groups (pc_Discovery cfg),
           gh_excludeArchived = disc_ExcludeArchived (pc_Discovery cfg), gh_schedule = pc_Schedule cfg\<rparr>)"

definition github_AllowsRepo :: "(string \<Rightarrow> string) \<Rightarrow> GitHub \<Rightarrow> string \<Rightarrow> bool" where
  "github_AllowsRepo uni g fullName = RepoAllowed uni (gh_orgs g) fullName"

section \<open>Payloads\<close>

text \<open>\<open>EditChange\<close>: each pointer on the way to the previous body may be nil.\<close>

record gh_from =
  from_From :: "string option"

record gh_changes =
  ch_Body :: "gh_from option"

record gh_pull =
  pr_Action :: string
  pr_Repo :: string
  pr_Changes :: "gh_changes option"
  pr_Body :: string
  pr_HeadRef :: string
  pr_Login :: string

record gh_issue =
  is_Action :: string
  is_Repo :: string
  is_Changes :: "gh_changes option"
  is_Title :: string
  is_Body :: string

record gh_push =
  ps_Repo :: string
  ps_PusherEmail :: string
  ps_Ref :: string
  ps_DefaultBranch :: string

datatype gh_hook = PullRequestEvent gh_pull | IssuesEvent gh_issue | GhPushEvent gh_push | GhOther

definition previousBody :: "gh_changes option \<Rightarrow> string" where
  "previousBody changes =
     (case changes of None \<Rightarrow> '''' | Some c \<Rightarrow>
      case ch_Body c of None \<Rightarrow> '''' | Some b \<Rightarrow>
      case from_From b of None \<Rightarrow> '''' | Some s \<Rightarrow> s)"

definition gh_tickedPlain :: "string \<Rightarrow> string \<Rightarrow> bool" where
  "gh_tickedPlain previous current = (if current = [] then False else CheckedItems current > CheckedItems previous)"

definition isRenovatePR :: "GitHub \<Rightarrow> gh_pull \<Rightarrow> bool" where
  "isRenovatePR g ev =
     (if HasRenovateDebugMarker (pr_Body ev) then True
      else if BranchHasPrefix (case mr_SourceBranchPrefixes (gh_mrFilter g) of None \<Rightarrow> [] | Some ps \<Rightarrow> ps) (pr_HeadRef ev)
        then True
      else length (mr_Authors (gh_mrFilter g)) > 0 \<and> pr_Login ev \<in> set (mr_Authors (gh_mrFilter g)))"

definition prTicked :: "GitHub \<Rightarrow> gh_pull \<Rightarrow> bool" where
  "prTicked g ev =
     (let previous = previousBody (pr_Changes ev); current = pr_Body ev in
      if current = [] then False
      else if gh_allowAnyCheckbox g \<or> isRenovatePR g ev then CheckedItems current > CheckedItems previous
      else CheckedMarkerItems current > CheckedMarkerItems previous)"

definition github_event :: "(string \<Rightarrow> string) \<Rightarrow> GitHub \<Rightarrow> string \<Rightarrow> reason \<Rightarrow> Event option" where
  "github_event uni g fullName reason =
     (if \<not> RepoAllowed uni (gh_orgs g) fullName then None
      else Some \<lparr>ev_Repo = \<lparr>repo_Platform = gh_name g, repo_FullName = fullName\<rparr>, ev_Reason = reason\<rparr>)"

section \<open>ParseWebhook\<close>

definition github_pull :: "(string \<Rightarrow> string) \<Rightarrow> GitHub \<Rightarrow> gh_pull \<Rightarrow> Event option" where
  "github_pull uni g ev =
     (if ''merge_request'' \<notin> set (gh_events g) \<or> pr_Action ev \<noteq> ''edited'' then None
      else if \<not> prTicked g ev then None
      else github_event uni g (pr_Repo ev) ReasonMergeRequest)"

definition github_issue :: "(string \<Rightarrow> string) \<Rightarrow> GitHub \<Rightarrow> gh_issue \<Rightarrow> Event option" where
  "github_issue uni g ev =
     (if ''issue'' \<notin> set (gh_events g) \<or> is_Action ev \<noteq> ''edited'' then None
      else let identified = (gh_allowAnyCheckbox g \<or> gh_dashboardIssueTitle g = ''*''
                 \<or> is_Title ev = gh_dashboardIssueTitle g \<or> HasRenovateDebugMarker (is_Body ev));
               prev = previousBody (is_Changes ev); cur = is_Body ev
           in if identified then
                (if \<not> gh_tickedPlain prev cur then None else github_event uni g (is_Repo ev) ReasonIssue)
              else if cur = [] \<or> CheckedMarkerItems cur \<le> CheckedMarkerItems prev then None
              else github_event uni g (is_Repo ev) ReasonIssue)"

definition github_push :: "(string \<Rightarrow> string) \<Rightarrow> GitHub \<Rightarrow> gh_push \<Rightarrow> Event option" where
  "github_push uni g ev =
     (if ''push'' \<notin> set (gh_events g) then None
      else if gh_botEmail g \<noteq> [] \<and> ps_PusherEmail ev = gh_botEmail g then None
      else if ps_Ref ev \<noteq> ''refs/heads/'' @ ps_DefaultBranch ev then None
      else github_event uni g (ps_Repo ev) ReasonPush)"

text \<open>
  \<open>validSig\<close> is \<open>gogithub.ValidateSignature\<close> on the header, the body and the secret; \<open>parseHook\<close> is
  \<open>gogithub.ParseWebHook(gogithub.WebHookType(r), body)\<close>. The adapter has no state of its own.
\<close>

definition github_ParseWebhook ::
  "(string \<Rightarrow> string) \<Rightarrow> (string \<Rightarrow> string \<Rightarrow> string \<Rightarrow> bool) \<Rightarrow> (http_request \<Rightarrow> string \<Rightarrow> string + gh_hook) \<Rightarrow>
   http_request \<Rightarrow> string \<Rightarrow> GitHub \<Rightarrow> webhook_result \<times> GitHub" where
  "github_ParseWebhook uni validSig parseHook r body g =
     (let sig = Header r ''X-Hub-Signature-256'' in
      if \<not> validSig sig body (gh_secret g) then (Inl ErrUnauthorized, g)
      else case parseHook r body of
             Inl err \<Rightarrow> (Inl (ParseError (''parse github webhook: '' @ err)), g)
           | Inr (PullRequestEvent ev) \<Rightarrow> (Inr (github_pull uni g ev), g)
           | Inr (IssuesEvent ev) \<Rightarrow> (Inr (github_issue uni g ev), g)
           | Inr (GhPushEvent ev) \<Rightarrow> (Inr (github_push uni g ev), g)
           | Inr GhOther \<Rightarrow> (Inr None, g))"

section \<open>DiscoverRepos\<close>

text \<open>A listed repository: its full name and whether it is archived.\<close>

fun listed_repos :: "GitHub \<Rightarrow> (string \<times> bool) list \<Rightarrow> Repo list" where
  "listed_repos g [] = []"
| "listed_repos g ((fullName, archived) # page) =
     (if gh_excludeArchived g \<and> archived then listed_repos g page
      else \<lparr>repo_Platform = gh_name g, repo_FullName = fullName\<rparr> # listed_repos g page)"

fun github_orgs_loop ::
  "(string \<Rightarrow> int \<Rightarrow> string + ((string \<times> bool) list \<times> int)) \<Rightarrow> GitHub \<Rightarrow> string list \<Rightarrow> Repo list \<Rightarrow>
   (string \<times> string + Repo list) option" where
  "github_orgs_loop listByOrg g [] repos = Some (Inr repos)"
| "github_orgs_loop listByOrg g (org # orgs) repos =
     (case page_loop (listByOrg org) (listed_repos g) 0 repos of
        None \<Rightarrow> None
      | Some (Inl err) \<Rightarrow> Some (Inl (org, err))
      | Some (Inr repos) \<Rightarrow> github_orgs_loop listByOrg g orgs repos)"

definition github_DiscoverRepos ::
  "(string \<Rightarrow> int \<Rightarrow> string + ((string \<times> bool) list \<times> int)) \<Rightarrow> GitHub \<Rightarrow> (string \<times> string + Repo list) option" where
  "github_DiscoverRepos listByOrg g = github_orgs_loop listByOrg g (gh_orgs g) []"

section \<open>Which deliveries are accepted\<close>

lemma github_event_Some:
  "github_event uni g fullName reason = Some ev \<longleftrightarrow> RepoAllowed uni (gh_orgs g) fullName
     \<and> ev = \<lparr>ev_Repo = \<lparr>repo_Platform = gh_name g, repo_FullName = fullName\<rparr>, ev_Reason = reason\<rparr>"
  by (auto simp: github_event_def)

text \<open>What justifies the event of each kind of payload.\<close>

fun github_justified :: "GitHub \<Rightarrow> gh_hook \<Rightarrow> Event \<Rightarrow> bool" where
  "github_justified g (PullRequestEvent p) ev \<longleftrightarrow> ''merge_request'' \<in> set (gh_events g) \<and> pr_Action p = ''edited''
     \<and> ev_Reason ev = ReasonMergeRequest \<and> repo_FullName (ev_Repo ev) = pr_Repo p \<and> prTicked g p"
| "github_justified g (IssuesEvent i) ev \<longleftrightarrow> ''issue'' \<in> set (gh_events g) \<and> is_Action i = ''edited''
     \<and> ev_Reason ev = ReasonIssue \<and> repo_FullName (ev_Repo ev) = is_Repo i \<and> is_Body i \<noteq> []
     \<and> (CheckedItems (is_Body i) > CheckedItems (previousBody (is_Changes i))
        \<or> CheckedMarkerItems (is_Body i) > CheckedMarkerItems (previousBody (is_Changes i)))"
| "github_justified g (GhPushEvent p) ev \<longleftrightarrow> ''push'' \<in> set (gh_events g) \<and> ev_Reason ev = ReasonPush
     \<and> repo_FullName (ev_Repo ev) = ps_Repo p \<and> \<not> (gh_botEmail g \<noteq> [] \<and> ps_PusherEmail p = gh_botEmail g)
     \<and> ps_Ref p = ''refs/heads/'' @ ps_DefaultBranch p"
| "github_justified g GhOther ev \<longleftrightarrow> False"

lemma github_parse_Some:
  assumes "github_ParseWebhook uni validSig parseHook r body g = (Inr (Some ev), g')"
  shows "validSig (Header r ''X-Hub-Signature-256'') body (gh_secret g)
    \<and> (\<exists>hook. parseHook r body = Inr hook \<and> github_justified g hook ev)
    \<and> repo_Platform (ev_Repo ev) = gh_name g \<and> RepoAllowed uni (gh_orgs g) (repo_FullName (ev_Repo ev)) \<and> g' = g"
proof -
  have v: "validSig (Header r ''X-Hub-Signature-256'') body (gh_secret g)"
    using assms by (auto simp: github_ParseWebhook_def Let_def split: if_splits)
  then obtain hook where h: "parseHook r body = Inr hook"
    using assms by (auto simp: github_ParseWebhook_def Let_def split: sum.splits)
  have "github_justified g hook ev \<and> repo_Platform (ev_Repo ev) = gh_name g
      \<and> RepoAllowed uni (gh_orgs g) (repo_FullName (ev_Repo ev)) \<and> g' = g"
    using assms v h
    by (cases hook) (auto simp: github_ParseWebhook_def github_pull_def github_issue_def github_push_def
        gh_tickedPlain_def github_event_Some Let_def split: if_splits)
  with v h show ?thesis by blast
qed

interpretation gh: platform_adapter gh_name "github_AllowsRepo uni" "github_ParseWebhook uni validSig parseHook"
  for uni validSig parseHook
proof unfold_locales
  fix r body g ev g'
  assume "github_ParseWebhook uni validSig parseHook r body g = (Inr (Some ev), g')"
  from github_parse_Some [OF this]
  show "repo_Platform (ev_Repo ev) = gh_name g \<and> github_AllowsRepo uni g (repo_FullName (ev_Repo ev))"
    by (simp add: github_AllowsRepo_def)
next
  fix r body g res g'
  assume "github_ParseWebhook uni validSig parseHook r body g = (res, g')"
  then have "g' = g"
    by (auto simp: github_ParseWebhook_def Let_def split: if_splits sum.splits gh_hook.splits)
  then show "gh_name g' = gh_name g \<and> github_AllowsRepo uni g' = github_AllowsRepo uni g" by simp
qed

section \<open>Properties\<close>


definition sample_github :: GitHub where
  "sample_github = \<lparr>gh_name = ''gh'', gh_webhookPath = ''/gh'', gh_secret = ''k'', gh_botEmail = '''',
     gh_dashboardIssueTitle = ''Dependency Dashboard'', gh_allowAnyCheckbox = False,
     gh_mrFilter = \<lparr>mr_SourceBranchPrefixes = Some [''renovate/''], mr_Authors = []\<rparr>,
     gh_events = [''merge_request'', ''issue'', ''push''], gh_orgs = [''acme''], gh_excludeArchived = True,
     gh_schedule = \<lparr>sched_Crontabs = [], sched_Timezone = ''''\<rparr>\<rparr>"

text \<open>An edit of the title only: the payload's changes have no body.\<close>

definition sample_pull :: gh_pull where
  "sample_pull = \<lparr>pr_Action = ''edited'', pr_Repo = ''acme/api'', pr_Changes = Some \<lparr>ch_Body = None\<rparr>,
     pr_Body = ''- [x] done'', pr_HeadRef = ''renovate/major'', pr_Login = ''bot''\<rparr>"


text \<open>
  An edit that does not touch the body counts as a tick as soon as the body has a checked
  item: the payload then carries no previous body, which the code reads as an empty one. So
  renaming a pull request that renovate owns and that has a checked box requests a run although
  no box was ticked.
\<close>

theorem title_edit_counts_as_tick:
  assumes "previousBody (pr_Changes ev) = ''''" and "0 < CheckedItems (pr_Body ev)"
    and "gh_allowAnyCheckbox g \<or> isRenovatePR g ev"
  shows "prTicked g ev"
proof -
  have "CheckedItems [] = 0" by code_simp
  moreover from this have "pr_Body ev \<noteq> []" using assms(2) by auto
  ultimately show ?thesis using assms by (simp add: prTicked_def Let_def)
qed

theorem title_edit_counts_as_tick_witness:
  "ch_Body (the (pr_Changes sample_pull)) = None \<and> prTicked sample_github sample_pull"
proof -
  have "previousBody (pr_Changes sample_pull) = ''''" by (simp add: previousBody_def sample_pull_def)
  moreover have "0 < CheckedItems (pr_Body sample_pull)" by code_simp
  moreover have "isRenovatePR sample_github sample_pull" by code_simp
  ultimately show ?thesis using title_edit_counts_as_tick [of sample_pull sample_github] by (simp add: sample_pull_def)
qed

lemma github_orgs_loop_serve:
  assumes "\<And>org. org \<in> set orgs \<Longrightarrow> pages org \<noteq> []"
    and "\<And>org p. org \<in> set orgs \<Longrightarrow> listByOrg org p = serve_pages (pages org) p"
  shows "github_orgs_loop listByOrg g orgs acc
    = Some (Inr (acc @ concat (map (\<lambda>org. concat (map (listed_repos g) (pages org))) orgs)))"
  using assms
proof (induction orgs arbitrary: acc)
  case (Cons org orgs)
  have "listByOrg org = serve_pages (pages org)" using Cons.prems(2) [of org] by auto
  moreover have "page_loop (serve_pages (pages org)) (listed_repos g) 0 acc
      = Some (Inr (acc @ concat (map (listed_repos g) (pages org))))"
    using page_loop_serve [of 1 "pages org" 0] Cons.prems(1) [of org] by (cases "pages org") auto
  ultimately show ?case using Cons by simp
qed simp

text \<open>
  C38. GitHub discovery is complete: over an API that lists every organisation in pages it returns,
  in order, every listed repository, without the archived ones when they are excluded.
\<close>

theorem github_discovery_complete:
  assumes "\<forall>org \<in> set (gh_orgs g). pages org \<noteq> []"
    and "\<forall>org \<in> set (gh_orgs g). \<forall>p. listByOrg org p = serve_pages (pages org) p"
  shows "github_DiscoverRepos listByOrg g
    = Some (Inr (map (\<lambda>(fullName, archived). \<lparr>repo_Platform = gh_name g, repo_FullName = fullName\<rparr>)
        (filter (\<lambda>(fullName, archived). \<not> (gh_excludeArchived g \<and> archived)) (concat (concat (map pages (gh_orgs g)))))))"
proof -
  have lr: "listed_repos g ps = map (\<lambda>(fullName, archived). \<lparr>repo_Platform = gh_name g, repo_FullName = fullName\<rparr>)
      (filter (\<lambda>(fullName, archived). \<not> (gh_excludeArchived g \<and> archived)) ps)" for ps
    by (induction ps) auto
  have cc: "concat (map (\<lambda>org. concat (map (listed_repos g) (pages org))) os)
      = listed_repos g (concat (concat (map pages os)))" for os
    by (induction os) (simp_all add: lr map_concat filter_concat comp_def)
  from assms show ?thesis unfolding github_DiscoverRepos_def
    by (subst github_orgs_loop_serve [where pages = pages]) (simp_all add: cc lr)
qed

theorem github_discovery_complete_witness:
  "github_DiscoverRepos (\<lambda>org. serve_pages [[(''acme/a'', False)], [(''acme/b'', True), (''acme/c'', False)]]) sample_github
     = Some (Inr [\<lparr>repo_Platform = ''gh'', repo_FullName = ''acme/a''\<rparr>, \<lparr>repo_Platform = ''gh'', repo_FullName = ''acme/c''\<rparr>])"
  using github_discovery_complete [of sample_github "\<lambda>_. [[(''acme/a'', False)], [(''acme/b'', True), (''acme/c'', False)]]"
      "\<lambda>org. serve_pages [[(''acme/a'', False)], [(''acme/b'', True), (''acme/c'', False)]]"]
  by simp (simp add: sample_github_def)

end
