(* ===== verification/Server.thy ===== *)
theory Server
  imports ServeMux GitLab GitHub Metrics
begin

text \<open>
  The HTTP surface (\<open>src/internal/server/server.go\<close>): the routes, the webhook handler, the
  authenticated trigger endpoint and the readiness probe. The handlers return the status of the
  response and the event they enqueue; the dispatcher consumes it.
\<close>

section \<open>The configured platforms\<close>

text \<open>
  The Go interface value \<open>platform.Platform\<close> is one of the two adapters. The packages of the
  hosting services they call are the argument \<open>E\<close>.
\<close>

datatype adapter = AGitLab GitLab | AGitHub GitHub

record hosting =
  host_lower :: "string \<Rightarrow> string"
  host_gitlab_parse :: "http_request \<Rightarrow> string \<Rightarrow> string + gl_hook"
  host_gitlab_user :: "int \<rightharpoonup> string"
  host_github_sig :: "string \<Rightarrow> string \<Rightarrow> string \<Rightarrow> bool"
  host_github_parse :: "http_request \<Rightarrow> string \<Rightarrow> string + gh_hook"
  host_now :: go_time

fun adapter_Name :: "adapter \<Rightarrow> string" where
  "adapter_Name (AGitLab g) = gl_name g"
| "adapter_Name (AGitHub g) = gh_name g"

fun adapter_WebhookPath :: "adapter \<Rightarrow> string" where
  "adapter_WebhookPath (AGitLab g) = gl_webhookPath g"
| "adapter_WebhookPath (AGitHub g) = gh_webhookPath g"

fun adapter_Schedule :: "adapter \<Rightarrow> Schedule" where
  "adapter_Schedule (AGitLab g) = gl_schedule g"
| "adapter_Schedule (AGitHub g) = gh_schedule g"

fun adapter_AllowsRepo :: "(string \<Rightarrow> string) \<Rightarrow> adapter \<Rightarrow> string \<Rightarrow> bool" where
  "adapter_AllowsRepo uni (AGitLab g) fullName = gitlab_AllowsRepo uni g fullName"
| "adapter_AllowsRepo uni (AGitHub g) fullName = github_AllowsRepo uni g fullName"

fun adapter_ParseWebhook :: "hosting \<Rightarrow> http_request \<Rightarrow> string \<Rightarrow> adapter \<Rightarrow> webhook_result \<times> adapter" where
  "adapter_ParseWebhook E r body (AGitLab g) =
     (case gitlab_ParseWebhook (host_lower E) (host_gitlab_parse E) (host_gitlab_user E) (host_now E) r body g of
        (res, g) \<Rightarrow> (res, AGitLab g))"
| "adapter_ParseWebhook E r body (AGitHub g) =
     (case github_ParseWebhook (host_lower E) (host_github_sig E) (host_github_parse E) r body g of
        (res, g) \<Rightarrow> (res, AGitHub g))"

interpretation ad: platform_adapter adapter_Name "adapter_AllowsRepo (host_lower E)" "adapter_ParseWebhook E" for E
proof unfold_locales
  fix r body g ev g'
  assume "adapter_ParseWebhook E r body g = (Inr (Some ev), g')"
  then show "repo_Platform (ev_Repo ev) = adapter_Name g \<and> adapter_AllowsRepo (host_lower E) g (repo_FullName (ev_Repo ev))"
    using gl.parse_event gh.parse_event by (cases g) (fastforce split: prod.splits)+
next
  fix r body g res g'
  assume "adapter_ParseWebhook E r body g = (res, g')"
  then show "adapter_Name g' = adapter_Name g \<and> adapter_AllowsRepo (host_lower E) g' = adapter_AllowsRepo (host_lower E) g"
    using gl.parse_name gh.parse_name by (cases g) (fastforce simp: fun_eq_iff split: prod.splits)+
qed

section \<open>The server\<close>

record server =
  ready :: bool
  apiToken :: string

datatype endpoint = Webhook_of nat | Healthz | Readyz | MetricsPage | StatusApi | RunsApi | TriggerApi

definition webhook_routes :: "adapter list \<Rightarrow> endpoint routes" where
  "webhook_routes platforms =
     map (\<lambda>(i, p). ((''POST'', adapter_WebhookPath p), Webhook_of i)) (enumerate 0 platforms)"

definition fixed_routes :: "endpoint routes" where
  "fixed_routes = [((''GET'', ''/healthz''), Healthz), ((''GET'', ''/readyz''), Readyz), ((''GET'', ''/metrics''), MetricsPage),
     ((''GET'', ''/api/v1/status''), StatusApi), ((''GET'', ''/api/v1/runs''), RunsApi),
     ((''POST'', ''/api/v1/trigger''), TriggerApi)]"

text \<open>\<open>mux.HandleFunc\<close> panics (\<^const>\<open>None\<close>) on a malformed or conflicting pattern.\<close>

definition server_New :: "(string \<Rightarrow> bool) \<Rightarrow> adapter list \<Rightarrow> (server \<times> endpoint routes) option" where
  "server_New ident platforms =
     map_option (\<lambda>mux. (\<lparr>ready = False, apiToken = ''''\<rparr>, mux))
       (mux_register ident [] (webhook_routes platforms @ fixed_routes))"

definition SetReady :: "bool \<Rightarrow> server \<Rightarrow> server" where
  "SetReady b s = s\<lparr>ready := b\<rparr>"

definition SetAPIToken :: "string \<Rightarrow> server \<Rightarrow> server" where
  "SetAPIToken token s = (if token \<noteq> '''' then s\<lparr>apiToken := token\<rparr> else s)"

definition readyz :: "server \<Rightarrow> nat" where
  "readyz s = (if \<not> ready s then 503 else 200)"

text \<open>
  \<open>io.ReadAll(http.MaxBytesReader(w, r.Body, limit))\<close>: the body, or an error when the client's stream
  fails or is longer than the limit.
\<close>

datatype body_stream = Body string | BrokenBody string

fun read_body :: "int \<Rightarrow> body_stream \<Rightarrow> string option" where
  "read_body limit (Body s) = (if int (length s) > limit then None else Some s)"
| "read_body limit (BrokenBody s) = None"

definition maxWebhookBody :: int where
  "maxWebhookBody = 5 * 2 ^ 20"

section \<open>Handlers\<close>

text \<open>Status, enqueued event, metrics and the adapter (whose lookups may have filled its cache).\<close>

definition webhookHandler ::
  "hosting \<Rightarrow> http_request \<Rightarrow> body_stream \<Rightarrow> Metrics \<Rightarrow> adapter \<Rightarrow> nat \<times> Event option \<times> Metrics \<times> adapter" where
  "webhookHandler E r stream m p =
     (case read_body maxWebhookBody stream of
        None \<Rightarrow> (400, None, WebhookEvent (adapter_Name p) ''invalid'' m, p)
      | Some body \<Rightarrow>
          (case adapter_ParseWebhook E r body p of
             (Inl ErrUnauthorized, p) \<Rightarrow> (401, None, WebhookEvent (adapter_Name p) ''unauthorized'' m, p)
           | (Inl (ParseError err), p) \<Rightarrow> (400, None, WebhookEvent (adapter_Name p) ''invalid'' m, p)
           | (Inr None, p) \<Rightarrow> (200, None, WebhookEvent (adapter_Name p) ''ignored'' m, p)
           | (Inr (Some ev), p) \<Rightarrow> (202, Some ev, WebhookEvent (adapter_Name p) ''accepted'' m, p)))"

text \<open>\<open>byName\<close>: a later platform of the same name replaces an earlier one.\<close>

definition byName :: "adapter list \<Rightarrow> string \<rightharpoonup> adapter" where
  "byName platforms = map_of (rev (map (\<lambda>p. (adapter_Name p, p)) platforms))"

text \<open>
  The JSON decoder is the argument \<open>unmarshal\<close>: the two fields of the request, empty when absent, or
  \<^const>\<open>None\<close> for an error.
\<close>

definition triggerHandler ::
  "(string \<Rightarrow> string) \<Rightarrow> (string \<Rightarrow> (string \<times> string) option) \<Rightarrow> adapter list \<Rightarrow> server \<Rightarrow> http_request \<Rightarrow> body_stream \<Rightarrow>
   nat \<times> Event option" where
  "triggerHandler uni unmarshal platforms s r stream =
     (if length (apiToken s) = 0 then (404, None)
      else case cutPrefix (Header r ''Authorization'') ''Bearer '' of
             None \<Rightarrow> (401, None)
           | Some token \<Rightarrow>
               if token \<noteq> apiToken s then (401, None)
               else case read_body 4096 stream of None \<Rightarrow> (400, None) | Some body \<Rightarrow>
                    case unmarshal body of None \<Rightarrow> (400, None) | Some (pf, repo) \<Rightarrow>
                    if pf = '''' \<or> repo = '''' then (400, None)
                    else case byName platforms pf of None \<Rightarrow> (400, None) | Some p \<Rightarrow>
                    if \<not> adapter_AllowsRepo uni p repo then (403, None)
                    else (202, Some \<lparr>ev_Repo = \<lparr>repo_Platform = pf, repo_FullName = repo\<rparr>, ev_Reason = ReasonManual\<rparr>))"

section \<open>Properties\<close>


definition sample_hosting :: hosting where
  "sample_hosting = \<lparr>host_lower = (\<lambda>s. s), host_gitlab_parse = sample_push_hook, host_gitlab_user = (\<lambda>_. None),
     host_github_sig = (\<lambda>s b k. s = k), host_github_parse = (\<lambda>r b. Inl ''bad''), host_now = 0\<rparr>"


text \<open>
  C32. The trigger endpoint enqueues a manual run exactly when the API token is configured, the request
  carries it as bearer token, the body (at most 4096 bytes) decodes with both fields set, the
  platform exists and allows the repository; it then answers 202, and in every other case it
  enqueues nothing and answers 404, 401, 400 or 403. Without a configured token it is always 404.
\<close>

theorem trigger_exact:
  "snd (triggerHandler uni unmarshal platforms s r stream) = Some ev \<longleftrightarrow>
     apiToken s \<noteq> [] \<and> Header r ''Authorization'' = ''Bearer '' @ apiToken s
     \<and> (\<exists>body pf repo p. stream = Body body \<and> length body \<le> 4096 \<and> unmarshal body = Some (pf, repo) \<and> pf \<noteq> [] \<and> repo \<noteq> []
          \<and> byName platforms pf = Some p \<and> adapter_AllowsRepo uni p repo
          \<and> ev = \<lparr>ev_Repo = \<lparr>repo_Platform = pf, repo_FullName = repo\<rparr>, ev_Reason = ReasonManual\<rparr>)"
  (is "?L \<longleftrightarrow> ?R")
proof -
  have cut: "cutPrefix h p = Some t \<longleftrightarrow> h = p @ t" for h p t
    by (auto simp: cutPrefix_def hasPrefix_iff hasPrefix_def)
  have bearer: "cutPrefix (''Bearer '' @ t) ''Bearer '' = Some t" for t
    by (simp only: cut)
  have rd: "read_body n st = Some b \<longleftrightarrow> st = Body b \<and> int (length b) \<le> n" for n st b
    by (cases st) auto
  show ?thesis
    by (auto simp: triggerHandler_def cut rd bearer [simplified] split: option.splits if_splits)
qed


section \<open>Routes\<close>

text \<open>The paths that can be served: each is a pattern, and none conflicts with an earlier one or with the trigger endpoint.\<close>

definition routes_ok :: "(string \<Rightarrow> bool) \<Rightarrow> string list \<Rightarrow> bool" where
  "routes_ok ident paths \<longleftrightarrow> list_all (\<lambda>p. parsePattern ident p \<noteq> None) paths
     \<and> sorted_wrt (\<lambda>old new. \<not> clashes ident (''POST'', new) (''POST'', old)) paths
     \<and> list_all (\<lambda>p. \<not> clashes ident (''POST'', ''/api/v1/trigger'') (''POST'', p)) paths"

lemma fixed_plain: "r \<in> set fixed_routes \<Longrightarrow> plain_path (snd (fst r))"
proof -
  have "list_all (\<lambda>r. plain_path (snd (fst r))) fixed_routes" by code_simp
  then show "r \<in> set fixed_routes \<Longrightarrow> plain_path (snd (fst r))" by (simp add: list_all_iff)
qed

lemma fixed_accepted:
  "list_all (\<lambda>(pat, _). parsePattern ident (snd pat) \<noteq> None) fixed_routes"
  "sorted_wrt (\<lambda>old new. \<not> clashes ident (fst new) (fst old)) fixed_routes"
proof -
  show "list_all (\<lambda>(pat, _). parsePattern ident (snd pat) \<noteq> None) fixed_routes"
    unfolding list_all_iff by (auto simp: parsePattern_plain dest!: fixed_plain)
  have "sorted_wrt (\<lambda>old new. fst old \<noteq> fst new) fixed_routes" by (simp add: fixed_routes_def)
  moreover have "\<not> clashes ident (fst new) (fst old)"
    if "old \<in> set fixed_routes" "new \<in> set fixed_routes" "fst old \<noteq> fst new" for old new
    using clashes_plain [OF fixed_plain [OF that(2)] fixed_plain [OF that(1)], of ident "fst (fst new)" "fst (fst old)"] that(3)
    by (metis prod.collapse)
  ultimately show "sorted_wrt (\<lambda>old new. \<not> clashes ident (fst new) (fst old)) fixed_routes"
    by (rule sorted_wrt_mono_rel [rotated])
qed

lemma map_webhook_routes: "map fst (webhook_routes platforms) = map (\<lambda>p. (''POST'', adapter_WebhookPath p)) platforms"
  unfolding webhook_routes_def by (rule nth_equalityI) (simp_all add: nth_enumerate_eq)

lemma webhook_routes_all: "(\<forall>r \<in> set (webhook_routes platforms). P (fst r)) \<longleftrightarrow> (\<forall>p \<in> set platforms. P (''POST'', adapter_WebhookPath p))"
proof -
  have "(\<forall>r \<in> set (webhook_routes platforms). P (fst r)) \<longleftrightarrow> (\<forall>x \<in> set (map fst (webhook_routes platforms)). P x)" by simp
  then show ?thesis unfolding map_webhook_routes by simp
qed

lemma server_New_eq:
  "server_New ident platforms = (if routes_ok ident (map adapter_WebhookPath platforms)
     then Some (\<lparr>ready = False, apiToken = []\<rparr>, webhook_routes platforms @ fixed_routes) else None)"
proof -
  have wrt: "sorted_wrt (\<lambda>old new. \<not> clashes ident (fst new) (fst old)) (webhook_routes platforms)
      \<longleftrightarrow> sorted_wrt (\<lambda>old new. \<not> clashes ident (''POST'', new) (''POST'', old)) (map adapter_WebhookPath platforms)"
    using arg_cong [OF map_webhook_routes [of platforms], of "sorted_wrt (\<lambda>old new. \<not> clashes ident new old)"]
    by (simp add: sorted_wrt_map)
  have parse: "list_all (\<lambda>(pat, _). parsePattern ident (snd pat) \<noteq> None) (webhook_routes platforms)
      \<longleftrightarrow> list_all (\<lambda>p. parsePattern ident p \<noteq> None) (map adapter_WebhookPath platforms)"
    using webhook_routes_all [of platforms "\<lambda>pat. parsePattern ident (snd pat) \<noteq> None"]
    by (simp add: list_all_iff case_prod_beta del: not_None_eq)
  have fixed: "(\<forall>new \<in> set fixed_routes. \<not> clashes ident (fst new) (''POST'', p))
      \<longleftrightarrow> \<not> clashes ident (''POST'', ''/api/v1/trigger'') (''POST'', p)" for p
    by (simp add: fixed_routes_def clashes_def)
  have cross: "(\<forall>old \<in> set (webhook_routes platforms). \<forall>new \<in> set fixed_routes. \<not> clashes ident (fst new) (fst old))
      \<longleftrightarrow> list_all (\<lambda>p. \<not> clashes ident (''POST'', ''/api/v1/trigger'') (''POST'', p)) (map adapter_WebhookPath platforms)"
    unfolding webhook_routes_all [of platforms "\<lambda>r. \<forall>new \<in> set fixed_routes. \<not> clashes ident (fst new) r"] fixed
    by (simp add: list_all_iff)
  show ?thesis unfolding server_New_def mux_register_eq routes_ok_def list_all_append sorted_wrt_append wrt parse cross
    using fixed_accepted by simp
qed

lemma routes_ok_plain:
  assumes "list_all plain_path paths"
  shows "routes_ok ident paths \<longleftrightarrow> distinct paths \<and> ''/api/v1/trigger'' \<notin> set paths"
proof -
  have plain: "plain_path p" if "p \<in> set paths" for p using assms that by (simp add: list_all_iff)
  have trigger: "plain_path ''/api/v1/trigger''" by code_simp
  have "sorted_wrt (\<lambda>old new. \<not> clashes ident (''POST'', new) (''POST'', old)) paths \<longleftrightarrow> distinct paths"
    using plain by (induction paths) (auto simp: clashes_plain)
  moreover have "list_all (\<lambda>p. \<not> clashes ident (''POST'', ''/api/v1/trigger'') (''POST'', p)) paths \<longleftrightarrow> ''/api/v1/trigger'' \<notin> set paths"
    using plain by (auto simp: list_all_iff clashes_plain trigger)
  ultimately show ?thesis
    by (simp add: routes_ok_def list_all_iff parsePattern_plain plain)
qed

lemma routes_ok_distinct:
  assumes "routes_ok ident paths"
  shows "distinct paths"
proof -
  have "clashes ident (''POST'', p) (''POST'', p)" if "p \<in> set paths" for p
  proof -
    have "parsePattern ident p \<noteq> None" using assms that by (simp add: routes_ok_def list_all_iff del: not_None_eq)
    then obtain pat where "parsePattern ident p = Some pat" by blast
    then show ?thesis by (simp add: clashes_def conflictsWith_self)
  qed
  moreover have "sorted_wrt (\<lambda>old new. \<not> clashes ident (''POST'', new) (''POST'', old)) paths"
    using assms by (simp add: routes_ok_def)
  ultimately show ?thesis by (induction paths) auto
qed

lemma server_New_routes:
  assumes "server_New ident platforms = Some (s, mux)" and "i < length platforms"
  shows "map_of mux (''POST'', adapter_WebhookPath (platforms ! i)) = Some (Webhook_of i)"
proof -
  from assms(1) have mux: "routes_ok ident (map adapter_WebhookPath platforms)" "mux = webhook_routes platforms @ fixed_routes"
    by (simp_all add: server_New_eq split: if_splits)
  have "distinct (map fst (webhook_routes platforms))"
    unfolding map_webhook_routes using routes_ok_distinct [OF mux(1)] by (simp add: distinct_map inj_on_def)
  moreover have "webhook_routes platforms ! i \<in> set (webhook_routes platforms)"
    using assms(2) by (intro nth_mem) (simp add: webhook_routes_def)
  ultimately have "map_of (webhook_routes platforms) (''POST'', adapter_WebhookPath (platforms ! i)) = Some (Webhook_of i)"
    using assms(2) by (simp add: webhook_routes_def nth_enumerate_eq)
  then show ?thesis unfolding mux(2) by (simp add: map_add_def)
qed

text \<open>
  C34. The server comes up exactly when every webhook path is a well-formed pattern and none of them
  conflicts with another or with the trigger endpoint; otherwise registering the routes panics. For
  literal paths that means: the paths differ from each other and from \<open>/api/v1/trigger\<close>. When the server is
  up, the pattern of each platform is bound to the handler of that platform.
\<close>

theorem routes_conflict_exactly:
  "((\<exists>x. server_New ident platforms = Some x) \<longleftrightarrow> routes_ok ident (map adapter_WebhookPath platforms))
   \<and> (list_all plain_path (map adapter_WebhookPath platforms) \<longrightarrow>
        (routes_ok ident (map adapter_WebhookPath platforms) \<longleftrightarrow>
           distinct (map adapter_WebhookPath platforms) \<and> ''/api/v1/trigger'' \<notin> set (map adapter_WebhookPath platforms)))
   \<and> (\<forall>s mux i. server_New ident platforms = Some (s, mux) \<and> i < length platforms \<longrightarrow>
        map_of mux (''POST'', adapter_WebhookPath (platforms ! i)) = Some (Webhook_of i))"
  using server_New_eq [of ident platforms] routes_ok_plain [of "map adapter_WebhookPath platforms" ident]
    server_New_routes [of ident platforms] by simp

definition ident0 :: "string \<Rightarrow> bool" where
  "ident0 = (\<lambda>_. False)"

text \<open>Two platforms with one path, and a path that passes the validation but is not clean, cannot be served.\<close>

theorem routes_conflict_exactly_witness:
  "(\<exists>s mux. server_New ident0 [AGitLab sample_gitlab] = Some (s, mux)
      \<and> map_of mux (''POST'', gl_webhookPath sample_gitlab) = Some (Webhook_of 0))
   \<and> server_New ident0 [AGitLab sample_gitlab, AGitLab sample_gitlab] = None
   \<and> server_New ident0 [AGitLab (sample_gitlab\<lparr>gl_webhookPath := ''/hooks//gl''\<rparr>)] = None"
proof -
  let ?one = "[AGitLab sample_gitlab]" and ?two = "[AGitLab sample_gitlab, AGitLab sample_gitlab]"
    and ?bad = "[AGitLab (sample_gitlab\<lparr>gl_webhookPath := ''/hooks//gl''\<rparr>)]"
  have plain: "plain_path (gl_webhookPath sample_gitlab)" by code_simp
  have path: "gl_webhookPath sample_gitlab \<noteq> ''/api/v1/trigger''" by (simp add: sample_gitlab_def)
  have ok: "routes_ok ident0 (map adapter_WebhookPath ?one)" "\<not> routes_ok ident0 (map adapter_WebhookPath ?two)"
    using routes_conflict_exactly [of ident0 ?one] routes_conflict_exactly [of ident0 ?two] plain path by simp_all
  have bad: "\<not> routes_ok ident0 (map adapter_WebhookPath ?bad)" by code_simp
  from ok(1) obtain s mux where one: "server_New ident0 ?one = Some (s, mux)"
    using routes_conflict_exactly [of ident0 ?one] by auto
  then have "map_of mux (''POST'', gl_webhookPath sample_gitlab) = Some (Webhook_of 0)"
    using routes_conflict_exactly [of ident0 ?one] by fastforce
  moreover have "server_New ident0 ?two = None" "server_New ident0 ?bad = None"
    using routes_conflict_exactly [of ident0 ?two] routes_conflict_exactly [of ident0 ?bad] ok(2) bad by (metis not_None_eq)+
  ultimately show ?thesis using one by blast
qed

end
