(* ===== verification/Cron.thy ===== *)
theory Cron
  imports Config
begin

text \<open>
  The cron schedules (\<open>src/internal/schedule/schedule.go\<close>): one scheduler per platform that has
  crontabs, in the platform's time zone. The time zone database and the cron package are parameters:
  whether a zone exists and whether \<open>AddFunc\<close> accepts a crontab; a scheduler fires its job only between
  \<open>Start\<close> and \<open>Stop\<close>. \<open>'j\<close> is the job.
\<close>

section \<open>Definitions\<close>

record 'j cron =
  cron_location :: string
  cron_entries :: "(string \<times> 'j) list"
  cron_running :: bool

record 'j Runner =
  crons :: "'j cron list"

definition schedule_New :: "'j Runner" where
  "schedule_New = \<lparr>crons = []\<rparr>"

datatype schedule_error = BadTimezone string | BadCrontab string

fun add_funcs :: "(string \<Rightarrow> bool) \<Rightarrow> string list \<Rightarrow> 'j \<Rightarrow> 'j cron \<Rightarrow> schedule_error + 'j cron" where
  "add_funcs addFunc [] job c = Inr c"
| "add_funcs addFunc (tab # tabs) job c =
     (if \<not> addFunc tab then Inl (BadCrontab tab)
      else add_funcs addFunc tabs job (c\<lparr>cron_entries := cron_entries c @ [(tab, job)]\<rparr>))"

definition AddPlatform ::
  "(string \<Rightarrow> bool) \<Rightarrow> (string \<Rightarrow> bool) \<Rightarrow> Schedule \<Rightarrow> 'j \<Rightarrow> 'j Runner \<Rightarrow> schedule_error + 'j Runner" where
  "AddPlatform loadLocation addFunc sched job r =
     (if sched_Crontabs sched = [] then Inr r
      else if sched_Timezone sched \<noteq> [] \<and> \<not> loadLocation (sched_Timezone sched) then Inl (BadTimezone (sched_Timezone sched))
      else let loc = (if sched_Timezone sched \<noteq> [] then sched_Timezone sched else ''UTC'') in
        case add_funcs addFunc (sched_Crontabs sched) job \<lparr>cron_location = loc, cron_entries = [], cron_running = False\<rparr> of
          Inl e \<Rightarrow> Inl e
        | Inr c \<Rightarrow> Inr (r\<lparr>crons := crons r @ [c]\<rparr>))"

definition runner_Start :: "'j Runner \<Rightarrow> 'j Runner" where
  "runner_Start r = r\<lparr>crons := map (\<lambda>c. c\<lparr>cron_running := True\<rparr>) (crons r)\<rparr>"

text \<open>
  \<open>Stop\<close> returns the context of the scheduler it stopped last, or the background context (\<^const>\<open>None\<close>) when there
  is none.
\<close>

fun stop_loop :: "'j cron list \<Rightarrow> 'j cron option \<Rightarrow> 'j cron list \<times> 'j cron option" where
  "stop_loop [] ctx = ([], ctx)"
| "stop_loop (c # cs) ctx =
     (let c = c\<lparr>cron_running := False\<rparr>; (cs, ctx) = stop_loop cs (Some c) in (c # cs, ctx))"

definition runner_Stop :: "'j Runner \<Rightarrow> 'j Runner \<times> 'j cron option" where
  "runner_Stop r = (case stop_loop (crons r) None of (cs, ctx) \<Rightarrow> (r\<lparr>crons := cs\<rparr>, ctx))"

text \<open>The crontabs that may fire, with their zones and jobs.\<close>

definition may_fire :: "'j Runner \<Rightarrow> (string \<times> string \<times> 'j) set" where
  "may_fire r = (\<Union>c \<in> {c \<in> set (crons r). cron_running c}. Pair (cron_location c) ` set (cron_entries c))"

section \<open>Lemmas\<close>

lemma add_funcs_eq:
  "add_funcs addFunc tabs job c =
     (case find (\<lambda>t. \<not> addFunc t) tabs of
        Some tab \<Rightarrow> Inl (BadCrontab tab)
      | None \<Rightarrow> Inr (c\<lparr>cron_entries := cron_entries c @ map (\<lambda>tab. (tab, job)) tabs\<rparr>))"
  by (induction tabs arbitrary: c) (auto split: option.split)

definition schedule_ok :: "(string \<Rightarrow> bool) \<Rightarrow> (string \<Rightarrow> bool) \<Rightarrow> Schedule \<Rightarrow> bool" where
  "schedule_ok loadLocation addFunc sched \<longleftrightarrow> sched_Crontabs sched = []
     \<or> (sched_Timezone sched = [] \<or> loadLocation (sched_Timezone sched)) \<and> list_all addFunc (sched_Crontabs sched)"

lemma AddPlatform_Inr:
  "AddPlatform loadLocation addFunc sched job r = Inr r' \<longleftrightarrow> schedule_ok loadLocation addFunc sched
     \<and> r' = (if sched_Crontabs sched = [] then r
         else r\<lparr>crons := crons r @ [\<lparr>cron_location = (if sched_Timezone sched \<noteq> [] then sched_Timezone sched else ''UTC''),
                cron_entries = map (\<lambda>tab. (tab, job)) (sched_Crontabs sched), cron_running = False\<rparr>]\<rparr>)"
proof (cases "find (\<lambda>t. \<not> addFunc t) (sched_Crontabs sched)")
  case None
  then have "list_all addFunc (sched_Crontabs sched)" by (simp add: find_None_iff list_all_iff)
  with None show ?thesis by (auto simp: AddPlatform_def schedule_ok_def add_funcs_eq Let_def)
next
  case (Some tab)
  then have "\<not> list_all addFunc (sched_Crontabs sched)" by (auto simp: find_Some_iff list_all_length)
  with Some show ?thesis by (auto simp: AddPlatform_def schedule_ok_def add_funcs_eq Let_def)
qed

lemma stop_loop_stops: "fst (stop_loop cs ctx) = map (\<lambda>c. c\<lparr>cron_running := False\<rparr>) cs"
  by (induction cs arbitrary: ctx) (auto simp: Let_def split: prod.splits, metis fst_conv)

lemma may_fire_Start: "may_fire (runner_Start r) = (\<Union>c \<in> set (crons r). Pair (cron_location c) ` set (cron_entries c))"
proof -
  have "{c \<in> set (crons (runner_Start r)). cron_running c} = (\<lambda>c. c\<lparr>cron_running := True\<rparr>) ` set (crons r)"
    by (auto simp: runner_Start_def)
  then show ?thesis by (simp add: may_fire_def)
qed

lemma may_fire_Stop: "may_fire (fst (runner_Stop r)) = {}"
proof -
  obtain cs ctx where s: "stop_loop (crons r) None = (cs, ctx)" by fastforce
  then have "cs = map (\<lambda>c. c\<lparr>cron_running := False\<rparr>) (crons r)" using stop_loop_stops [of "crons r" None] by simp
  then show ?thesis by (auto simp: runner_Stop_def s may_fire_def)
qed

end
