(* ===== verification/Exec_Base.thy ===== *)
theory Exec_Base
  imports Executor GoTime "HOL-Library.Char_ord" "HOL-Library.List_Lexorder"
begin

text \<open>
  What the executors share: the environment variables handed to a run, in the order the code
  gives them, and the contract \<open>executor.Executor\<close> states in its comment as a locale: \<open>Run\<close> blocks
  until the run finishes and honours the cancellation of its context. The shadow executor
  (\<open>src/internal/executor/noop/noop.go\<close>) is here too.
\<close>

section \<open>Environment variables\<close>

text \<open>
  \<open>for k := range env { keys = append(keys, k) }; sort.Strings(keys); for _, k := range keys { ...
  env[k] ... }\<close>: Go leaves the order of the first loop open, the order of the association list stands
  for it. Strings are compared bytewise.
\<close>

definition sorted_env :: "gomap \<Rightarrow> (string \<times> string) list" where
  "sorted_env env = map (\<lambda>k. (k, case map_of env k of Some v \<Rightarrow> v | None \<Rightarrow> '''')) (sort (map fst env))"

text \<open>The order in which the map was iterated does not matter.\<close>

lemma sorted_env_cong:
  assumes "distinct (map fst env)" and "distinct (map fst env')" and "set env = set env'"
  shows "sorted_env env = sorted_env env'"
proof -
  have "set (map fst env) = set (map fst env')" using assms(3) by auto
  then have "sort (map fst env) = sort (map fst env')"
    using assms(1,2) by (intro sorted_distinct_set_unique) simp_all
  moreover have "map_of env = map_of env'"
    using assms by (intro map_of_inject_set [THEN iffD2]) simp_all
  ultimately show ?thesis by (simp add: sorted_env_def)
qed

lemma fst_sorted_env: "map fst (sorted_env env) = sort (map fst env)"
  by (simp add: sorted_env_def comp_def)

lemma set_sorted_env: "distinct (map fst env) \<Longrightarrow> set (sorted_env env) = set env"
  by (force simp: sorted_env_def image_iff split: option.splits)

lemma map_of_sorted_env: "distinct (map fst env) \<Longrightarrow> map_of (sorted_env env) = map_of env"
  by (intro map_of_inject_set [THEN iffD2]) (simp_all add: fst_sorted_env set_sorted_env)

section \<open>Formatting\<close>

text \<open>\<open>%d\<close>, \<open>hex.EncodeToString\<close> and \<open>%q\<close> (\<open>strconv.Quote\<close>; the argument \<open>uni\<close> quotes what is not ASCII).\<close>

definition fmt_d :: "int \<Rightarrow> string" where
  "fmt_d n = (if n < 0 then CHR ''-'' # decimal (- n) else decimal n)"

definition hex_digit :: "nat \<Rightarrow> char" where
  "hex_digit n = (if n < 10 then char_of (48 + n) else char_of (87 + n))"

definition hex_byte :: "char \<Rightarrow> string" where
  "hex_byte c = (let n = (of_char c :: nat) in [hex_digit (n div 16), hex_digit (n mod 16)])"

definition hex_EncodeToString :: "string \<Rightarrow> string" where
  "hex_EncodeToString s = concat (map hex_byte s)"

definition quote_char :: "char \<Rightarrow> string" where
  "quote_char c =
     (if c = CHR 0x22 \<or> c = CHR 0x5C then [CHR 0x5C, c]
      else if 32 \<le> (of_char c :: nat) \<and> (of_char c :: nat) < 127 then [c]
      else case map_of [(CHR 0x07, CHR ''a''), (CHR 0x08, CHR ''b''), (CHR 0x0C, CHR ''f''), (CHR 0x0A, CHR ''n''),
                        (CHR 0x0D, CHR ''r''), (CHR 0x09, CHR ''t''), (CHR 0x0B, CHR ''v'')] c of
             Some e \<Rightarrow> [CHR 0x5C, e]
           | None \<Rightarrow> [CHR 0x5C, CHR ''x''] @ hex_byte c)"

definition go_Quote :: "(string \<Rightarrow> string) \<Rightarrow> string \<Rightarrow> string" where
  "go_Quote uni s = (if list_all is_ascii s then [CHR 0x22] @ concat (map quote_char s) @ [CHR 0x22] else uni s)"

section \<open>Loops that end at the first outcome\<close>

text \<open>
  A loop whose round \<open>n\<close> either has an outcome or goes on with the next round returns the first outcome.
\<close>

lemma loop_finds:
  assumes step: "\<And>n. loop n = (case out n of Some r \<Rightarrow> Some r | None \<Rightarrow> loop (Suc n))"
    and "out (n + k) = Some r" and "\<forall>j<k. out (n + j) = None"
  shows "loop n = Some r"
  using assms(2,3)
proof (induction k arbitrary: n)
  case 0
  then show ?case using step [of n] by simp
next
  case (Suc k)
  have "out n = None" using Suc.prems(2) by (metis add.right_neutral zero_less_Suc)
  moreover have "loop (Suc n) = Some r"
    using Suc.prems(1) Suc.prems(2) [rule_format, of "Suc _"] by (intro Suc.IH) simp_all
  ultimately show ?case using step [of n] by simp
qed

lemma loop_returns:
  assumes step: "\<And>n. loop n = (case out n of Some r \<Rightarrow> Some r | None \<Rightarrow> loop (Suc n))"
    and "out n \<noteq> None"
  shows "\<exists>r. loop 0 = Some r"
proof -
  define m where "m = (LEAST n. out n \<noteq> None)"
  have "out m \<noteq> None" unfolding m_def using assms(2) by (rule LeastI)
  moreover have "\<forall>j<m. out j = None" unfolding m_def using not_less_Least by blast
  ultimately show ?thesis using loop_finds [of loop out 0 m, OF step] by auto
qed

lemma first_outcome_Suc:
  assumes "out n = None" and "out (Suc n + k) = Some r \<and> (\<forall>j<k. out (Suc n + j) = None)"
  shows "\<exists>k. out (n + k) = Some r \<and> (\<forall>j<k. out (n + j) = None)"
proof -
  have "\<forall>j<Suc k. out (n + j) = None"
    using assms by (metis add.right_neutral add_Suc_shift less_Suc_eq_0_disj)
  with assms(2) show ?thesis by (intro exI [of _ "Suc k"]) simp
qed

section \<open>The contract\<close>

text \<open>
  A run in an environment: \<^const>\<open>None\<close> means that \<open>Run\<close> never returns there, \<open>Some err\<close> that it returns
  \<open>err\<close>. \<open>ends\<close> says of an environment that the context of the run is cancelled in it at some time:
  the dispatcher gives every run a context with a timeout.
\<close>

locale run_executor =
  fixes run :: "'e \<Rightarrow> RunSpec \<Rightarrow> error option option"
    and ends :: "'e \<Rightarrow> bool"
  assumes honours_ctx: "ends env \<Longrightarrow> run env spec \<noteq> None"
begin

lemma returns: "ends env \<Longrightarrow> \<exists>err. run env spec = Some err"
  using honours_ctx by blast

end

section \<open>The shadow executor\<close>

record noop =
  noop_name :: string

definition noop_New :: "ExecutorConfig \<Rightarrow> noop" where
  "noop_New cfg = \<lparr>noop_name = ec_Name cfg\<rparr>"

definition noop_Run :: "noop \<Rightarrow> RunSpec \<Rightarrow> error option option" where
  "noop_Run e spec = Some None"

interpretation noop: run_executor noop_Run "\<lambda>_. True"
  by unfold_locales (simp add: noop_Run_def)

end
