(* ===== verification/Docker.thy ===== *)
theory Docker
  imports Exec_Base
begin

text \<open>
  The docker executor (\<open>src/internal/executor/docker/docker.go\<close>). The Docker SDK is a parameter: a
  record of the calls of the interface \<open>API\<close> over the state \<open>'w\<close> of the daemon and of the run's
  context. Each call takes the context it is made with.
\<close>

section \<open>The API\<close>

text \<open>
  \<open>RunCtx\<close> is the context of the run, \<open>Detached\<close> the one made by \<open>context.WithTimeout(context.WithoutCancel(ctx),
  removeTimeout)\<close>, which outlives its cancellation.
\<close>

datatype call_ctx = RunCtx | Detached

record container_config =
  cc_Image :: string
  cc_Env :: "string list"

record host_config =
  hc_Binds :: "string list"

text \<open>
  What the \<open>select\<close> at the end of \<open>Run\<close> receives first: the exit of the container, an error of the wait
  call, or the end of the context. \<^const>\<open>None\<close>: none of them ever arrives.
\<close>

datatype wait_event = WaitResponse int | WaitError error | CtxDone

record 'w docker_api =
  ImagePull :: "call_ctx \<Rightarrow> string \<Rightarrow> 'w \<Rightarrow> error option \<times> 'w"
  ContainerCreate :: "call_ctx \<Rightarrow> container_config \<Rightarrow> host_config \<Rightarrow> 'w \<Rightarrow> (error + string) \<times> 'w"
  ContainerStart :: "call_ctx \<Rightarrow> string \<Rightarrow> 'w \<Rightarrow> error option \<times> 'w"
  ContainerWait :: "call_ctx \<Rightarrow> string \<Rightarrow> 'w \<Rightarrow> (wait_event \<times> 'w) option"
  ContainerLogs :: "call_ctx \<Rightarrow> string \<Rightarrow> 'w \<Rightarrow> (error + string) \<times> 'w"
  ContainerRemove :: "call_ctx \<Rightarrow> string \<Rightarrow> bool \<Rightarrow> 'w \<Rightarrow> error option \<times> 'w"
  StdCopy :: "string \<Rightarrow> error + string"
  ctx_Err :: "'w \<Rightarrow> error option"

section \<open>The executor\<close>

definition cacheMountPath :: string where
  "cacheMountPath = ''/tmp/renovate/cache''"

record docker =
  dk_name :: string
  dk_image :: string
  dk_cacheVolume :: string
  dk_pull :: bool
  dk_env :: gomap

definition docker_New :: "ExecutorConfig \<Rightarrow> docker" where
  "docker_New cfg = \<lparr>dk_name = ec_Name cfg, dk_image = ec_Image cfg, dk_cacheVolume = ec_CacheVolume cfg,
     dk_pull = ec_Pull cfg, dk_env = ec_Env cfg\<rparr>"

definition docker_env :: "docker \<Rightarrow> RunSpec \<Rightarrow> string list" where
  "docker_env e spec = (''RENOVATE_REPOSITORIES='' @ repo_FullName (spec_Repo spec))
     # map (\<lambda>(k, v). k @ ''='' @ v) (sorted_env (dk_env e))"

definition docker_host :: "docker \<Rightarrow> host_config" where
  "docker_host e = \<lparr>hc_Binds = (if dk_cacheVolume e \<noteq> [] then [dk_cacheVolume e @ '':'' @ cacheMountPath] else [])\<rparr>"

text \<open>The diagnostics of a failed container: at most 64 KiB of the stream of its last lines.\<close>

definition logTail :: "'w docker_api \<Rightarrow> string \<Rightarrow> 'w \<Rightarrow> string \<times> 'w" where
  "logTail api cid w =
     (case ContainerLogs api Detached cid w of
        (Inl err, w) \<Rightarrow> (''<failed to fetch logs: '' @ err_Error err @ ''>'', w)
      | (Inr rc, w) \<Rightarrow>
          (case StdCopy api (take (64 * 1024) rc) of
             Inl err \<Rightarrow> (''<failed to read logs: '' @ err_Error err @ ''>'', w)
           | Inr out \<Rightarrow> (out, w)))"

text \<open>From the start of the created container to the value returned, before the deferred removal.\<close>

definition docker_await :: "'w docker_api \<Rightarrow> string \<Rightarrow> 'w \<Rightarrow> (error option \<times> 'w) option" where
  "docker_await api cid w =
     (case ContainerStart api RunCtx cid w of
        (Some err, w) \<Rightarrow> Some (Some (Wrapf ''start container: '' err), w)
      | (None, w) \<Rightarrow>
          (case ContainerWait api RunCtx cid w of
             None \<Rightarrow> None
           | Some (WaitResponse statusCode, w) \<Rightarrow>
               if statusCode \<noteq> 0 then
                 (case logTail api cid w of (tail, w) \<Rightarrow>
                    Some (Some (Errorf (''renovate container finished with exit code '' @ fmt_d statusCode)), w))
               else Some (None, w)
           | Some (WaitError err, w) \<Rightarrow>
               (case ctx_Err api w of
                  Some c \<Rightarrow> Some (Some c, w)
                | None \<Rightarrow> Some (Some (Wrapf ''wait for container: '' err), w))
           | Some (CtxDone, w) \<Rightarrow> Some (ctx_Err api w, w)))"

definition docker_create :: "'w docker_api \<Rightarrow> docker \<Rightarrow> RunSpec \<Rightarrow> 'w \<Rightarrow> (error option \<times> 'w) option" where
  "docker_create api e spec w =
     (case ContainerCreate api RunCtx \<lparr>cc_Image = dk_image e, cc_Env = docker_env e spec\<rparr> (docker_host e) w of
        (Inl err, w) \<Rightarrow> Some (Some (Wrapf ''create container: '' err), w)
      | (Inr cid, w) \<Rightarrow>
          (case docker_await api cid w of
             None \<Rightarrow> None
           | Some (err, w) \<Rightarrow> Some (err, snd (ContainerRemove api Detached cid True w))))"

definition docker_Run ::
  "(string \<Rightarrow> string) \<Rightarrow> 'w docker_api \<Rightarrow> docker \<Rightarrow> RunSpec \<Rightarrow> 'w \<Rightarrow> (error option \<times> 'w) option" where
  "docker_Run uni api e spec w =
     (if dk_pull e then
        (case ImagePull api RunCtx (dk_image e) w of
           (Some err, w) \<Rightarrow> Some (Some (Wrapf (''pull image '' @ go_Quote uni (dk_image e) @ '': '') err), w)
         | (None, w) \<Rightarrow> docker_create api e spec w)
      else docker_create api e spec w)"

section \<open>The daemon\<close>

text \<open>
  The documented behaviour of the calls, as far as the executor relies on it. \<open>containers\<close> are the
  containers the daemon has: only creating and removing change them, a created one is new, and a
  forced removal with a live context removes the container, running or not.
\<close>

locale docker_daemon =
  fixes api :: "'w docker_api"
    and containers :: "'w \<Rightarrow> string set"
  assumes pull_keeps: "containers (snd (ImagePull api c img w)) = containers w"
    and create_new: "ContainerCreate api c cfg host w = (Inr cid, w') \<Longrightarrow>
        cid \<notin> containers w \<and> containers w' = insert cid (containers w)"
    and create_fails: "ContainerCreate api c cfg host w = (Inl err, w') \<Longrightarrow> containers w' = containers w"
    and start_keeps: "containers (snd (ContainerStart api c cid w)) = containers w"
    and wait_keeps: "ContainerWait api c cid w = Some (ev, w') \<Longrightarrow> containers w' = containers w"
    and logs_keep: "containers (snd (ContainerLogs api c cid w)) = containers w"
    and remove_forced: "containers (snd (ContainerRemove api Detached cid True w)) = containers w - {cid}"
begin

lemma logTail_keeps: "containers (snd (logTail api cid w)) = containers w"
proof -
  obtain r w1 where "ContainerLogs api Detached cid w = (r, w1)" by fastforce
  with logs_keep [of Detached cid w] show ?thesis by (cases r) (simp_all add: logTail_def split: sum.split)
qed

lemma await_keeps:
  assumes "docker_await api cid w = Some (err, w')"
  shows "containers w' = containers w"
proof -
  obtain serr w1 where s: "ContainerStart api RunCtx cid w = (serr, w1)" by fastforce
  have w1: "containers w1 = containers w" using start_keeps [of RunCtx cid w] s by simp
  have "containers w' = containers w2" if "logTail api cid w2 = (tail, w')" for tail w2
    using logTail_keeps [of cid w2] that by simp
  with assms s w1 wait_keeps [of RunCtx cid w1] show ?thesis
    by (auto simp: docker_await_def split: option.splits prod.splits wait_event.splits if_splits)
qed

lemma create_keeps:
  assumes "docker_create api e spec w = Some (err, w')"
  shows "containers w' = containers w"
proof -
  let ?create = "ContainerCreate api RunCtx \<lparr>cc_Image = dk_image e, cc_Env = docker_env e spec\<rparr> (docker_host e) w"
  obtain r w1 where c: "?create = (r, w1)" by fastforce
  show ?thesis
  proof (cases r)
    case (Inl e)
    with assms c create_fails show ?thesis by (auto simp: docker_create_def)
  next
    case (Inr cid)
    with assms c obtain w2 where "docker_await api cid w1 = Some (err, w2)"
      and w': "w' = snd (ContainerRemove api Detached cid True w2)"
      by (auto simp: docker_create_def split: option.splits prod.splits)
    with await_keeps create_new [of RunCtx _ _ w cid w1] c Inr remove_forced [of cid w2] show ?thesis
      by (metis Diff_insert_absorb)
  qed
qed

lemma run_keeps:
  assumes "docker_Run uni api e spec w = Some (err, w')"
  shows "containers w' = containers w"
proof (cases "dk_pull e")
  case True
  obtain perr w1 where "ImagePull api RunCtx (dk_image e) w = (perr, w1)" by fastforce
  with assms True pull_keeps [of RunCtx "dk_image e" w] create_keeps [of e spec w1] show ?thesis
    by (auto simp: docker_Run_def split: option.splits)
qed (use assms create_keeps in \<open>simp add: docker_Run_def\<close>)

end


section \<open>Cancellation\<close>

text \<open>The run context ends: then every \<open>select\<close> over \<open>ctx.Done()\<close> receives something.\<close>

definition docker_ctx_ends :: "(string \<Rightarrow> string) \<times> 'w docker_api \<times> docker \<times> 'w \<Rightarrow> bool" where
  "docker_ctx_ends env = (case env of (uni, api, e, w) \<Rightarrow> \<forall>cid w. ContainerWait api RunCtx cid w \<noteq> None)"

lemma docker_await_returns: "\<forall>cid w. ContainerWait api RunCtx cid w \<noteq> None \<Longrightarrow> docker_await api cid w \<noteq> None"
proof -
  assume wait: "\<forall>cid w. ContainerWait api RunCtx cid w \<noteq> None"
  obtain serr w1 where s: "ContainerStart api RunCtx cid w = (serr, w1)" by fastforce
  obtain ev w2 where "ContainerWait api RunCtx cid w1 = Some (ev, w2)" using wait by fastforce
  with s show ?thesis
    by (cases serr; cases ev) (simp_all add: docker_await_def split: option.split prod.split)
qed

definition docker_run_env :: "(string \<Rightarrow> string) \<times> 'w docker_api \<times> docker \<times> 'w \<Rightarrow> RunSpec \<Rightarrow> error option option" where
  "docker_run_env env spec = (case env of (uni, api, e, w) \<Rightarrow> map_option fst (docker_Run uni api e spec w))"

interpretation docker: run_executor docker_run_env docker_ctx_ends
proof unfold_locales
  fix env :: "(string \<Rightarrow> string) \<times> 'w docker_api \<times> docker \<times> 'w" and spec
  assume "docker_ctx_ends env"
  moreover obtain uni api e w where env: "env = (uni, api, e, w)" by (rule prod_cases4)
  ultimately have "docker_await api cid w \<noteq> None" for cid w
    by (intro docker_await_returns) (simp add: docker_ctx_ends_def)
  then have "docker_create api e spec w \<noteq> None" for w
    by (simp add: docker_create_def del: not_None_eq split: prod.split sum.split option.split)
  then show "docker_run_env env spec \<noteq> None"
    by (simp add: docker_run_env_def env docker_Run_def del: not_None_eq split: prod.split option.split)
qed

section \<open>A reference daemon\<close>

text \<open>A daemon that keeps a list of containers and reports the event \<open>dd_event\<close> to whoever waits.\<close>

record dockerd =
  dd_containers :: "string list"
  dd_event :: wait_event

definition fresh_cid :: "string list \<Rightarrow> string" where
  "fresh_cid ids = replicate (Suc (sum_list (map length ids))) (CHR ''c'')"

lemma fresh_cid: "fresh_cid ids \<notin> set ids"
proof
  assume "fresh_cid ids \<in> set ids"
  then have "length (fresh_cid ids) \<le> sum_list (map length ids)" by (simp add: member_le_sum_list)
  then show False by (simp add: fresh_cid_def)
qed

definition ref_docker :: "dockerd docker_api" where
  "ref_docker = \<lparr>
     ImagePull = (\<lambda>c img w. (None, w)),
     ContainerCreate = (\<lambda>c cfg host w. let cid = fresh_cid (dd_containers w)
       in (Inr cid, w\<lparr>dd_containers := cid # dd_containers w\<rparr>)),
     ContainerStart = (\<lambda>c cid w. (None, w)),
     ContainerWait = (\<lambda>c cid w. Some (dd_event w, w)),
     ContainerLogs = (\<lambda>c cid w. (Inr '''', w)),
     ContainerRemove = (\<lambda>c cid force w. (None, w\<lparr>dd_containers := filter (\<lambda>i. i \<noteq> cid) (dd_containers w)\<rparr>)),
     StdCopy = (\<lambda>s. Inr s),
     ctx_Err = (\<lambda>w. if dd_event w = CtxDone then Some DeadlineExceeded else None)\<rparr>"

interpretation ref_docker: docker_daemon ref_docker "\<lambda>w. set (dd_containers w)"
  by unfold_locales (auto simp: ref_docker_def fresh_cid Let_def)

section \<open>Properties\<close>


definition sample_docker :: docker where
  "sample_docker = \<lparr>dk_name = ''local'', dk_image = ''renovate/renovate'', dk_cacheVolume = ''cache'', dk_pull = True,
     dk_env = [(''RENOVATE_TOKEN'', ''t''), (''LOG_LEVEL'', ''debug'')]\<rparr>"


end
