(* ===== verification/GitLab_CI.thy ===== *)
theory GitLab_CI
  imports Exec_Base Memory_Store
begin

text \<open>
  The pipeline executor (\<open>src/internal/executor/gitlabci/gitlabci.go\<close>): it triggers a pipeline, keeps a
  handle of it in the store while it polls, and resumes the polls of the handles it finds after a
  restart. Templates, JSON and the GitLab client are parameters.
\<close>

section \<open>Data\<close>

definition maxConsecutivePollErrors :: nat where
  "maxConsecutivePollErrors = 5"

record runHandle =
  rh_Executor :: string
  rh_Platform :: string
  rh_Repo :: string
  rh_Project :: string
  rh_PipelineID :: int

record templateData =
  td_Repo :: string
  td_Platform :: string
  td_Reason :: string

text \<open>\<open>'t\<close> is a parsed template.\<close>

record 't gitlabci =
  ci_name :: string
  ci_project :: string
  ci_ref :: string
  ci_triggerToken :: string
  ci_variables :: "(string \<times> 't) list"
  ci_inputs :: "(string \<times> 't) list"
  ci_pollInterval :: duration

text \<open>
  The packages: \<open>template.New(k).Option("missingkey=error").Parse(v)\<close>, \<open>Execute\<close>, the trigger call (project,
  ref, token, variables, inputs to the id of the pipeline), and \<open>json.Marshal\<close> and \<open>json.Unmarshal\<close> of a
  handle. \<open>Quoted\<close> quotes what is not ASCII in \<open>%q\<close>.
\<close>

record 't ci_env =
  Parse :: "string \<Rightarrow> string \<Rightarrow> error + 't"
  Execute :: "'t \<Rightarrow> templateData \<Rightarrow> error + string"
  RunPipelineTrigger :: "string \<Rightarrow> string \<Rightarrow> string \<Rightarrow> gomap \<Rightarrow> gomap \<Rightarrow> error + int"
  json_Marshal :: "runHandle \<Rightarrow> string option"
  json_Unmarshal :: "string \<Rightarrow> error + runHandle"
  Quoted :: "string \<Rightarrow> string"

section \<open>New\<close>

fun parse_templates :: "'t ci_env \<Rightarrow> gomap \<Rightarrow> (string \<times> error) + (string \<times> 't) list" where
  "parse_templates E [] = Inr []"
| "parse_templates E ((k, v) # rest) =
     (case Parse E k v of
        Inl err \<Rightarrow> Inl (k, err)
      | Inr tmpl \<Rightarrow> (case parse_templates E rest of Inl e \<Rightarrow> Inl e | Inr ts \<Rightarrow> Inr ((k, tmpl) # ts)))"

definition gitlabci_New :: "'t ci_env \<Rightarrow> ExecutorConfig \<Rightarrow> error + 't gitlabci" where
  "gitlabci_New E cfg =
     (let failed = (\<lambda>what (k, err). Wrapf (''executor '' @ go_Quote (Quoted E) (ec_Name cfg) @ '': '' @ what
            @ go_Quote (Quoted E) k @ '': '') err)
      in case parse_templates E (ec_Variables cfg) of
           Inl e \<Rightarrow> Inl (failed ''variable '' e)
         | Inr vars \<Rightarrow>
             (case parse_templates E (ec_Inputs cfg) of
                Inl e \<Rightarrow> Inl (failed ''input '' e)
              | Inr inputs \<Rightarrow> Inr \<lparr>ci_name = ec_Name cfg, ci_project = ec_Project cfg, ci_ref = ec_Ref cfg,
                  ci_triggerToken = ec_TriggerToken cfg, ci_variables = vars, ci_inputs = inputs,
                  ci_pollInterval = ec_PollInterval cfg\<rparr>))"

section \<open>Polling\<close>

text \<open>
  What one round of the loop observes: the end of the context at the \<open>select\<close> (with \<open>ctx.Err()\<close>), or after a
  tick a failed request (with \<open>ctx.Err()\<close> then, \<^const>\<open>None\<close> while it is live) or a pipeline status. \<open>obs project pid n\<close> is
  the observation of round \<open>n\<close> of the poll of a pipeline.
\<close>

datatype poll_obs = ObsDone error | ObsFailed error "error option" | ObsStatus string

type_synonym poll_env = "string \<Rightarrow> int \<Rightarrow> nat \<Rightarrow> poll_obs"

partial_function (option) pollPipeline ::
  "'t ci_env \<Rightarrow> poll_env \<Rightarrow> 't gitlabci \<Rightarrow> int \<Rightarrow> nat \<Rightarrow> nat \<Rightarrow> error option option" where
  "pollPipeline E obs e pid n pollErrors =
     (case obs (ci_project e) pid n of
        ObsDone c \<Rightarrow> Some (Some c)
      | ObsFailed err ctx \<Rightarrow>
          (case ctx of
             Some c \<Rightarrow> Some (Some c)
           | None \<Rightarrow>
               if pollErrors + 1 \<ge> maxConsecutivePollErrors
               then Some (Some (Wrapf (''poll pipeline '' @ fmt_d pid @ '': '') err))
               else pollPipeline E obs e pid (n + 1) (pollErrors + 1))
      | ObsStatus status \<Rightarrow>
          if status = ''success'' then Some None
          else if status = ''failed'' \<or> status = ''canceled'' \<or> status = ''skipped''
          then Some (Some (Errorf (''pipeline '' @ fmt_d pid @ '' finished with status '' @ go_Quote (Quoted E) status)))
          else pollPipeline E obs e pid (n + 1) 0)"

declare pollPipeline.simps [code]

section \<open>Run\<close>

fun render :: "'t ci_env \<Rightarrow> templateData \<Rightarrow> (string \<times> 't) list \<Rightarrow> (string \<times> error) + gomap" where
  "render E data [] = Inr []"
| "render E data ((k, tmpl) # rest) =
     (case Execute E tmpl data of
        Inl err \<Rightarrow> Inl (k, err)
      | Inr s \<Rightarrow> (case render E data rest of Inl e \<Rightarrow> Inl e | Inr vs \<Rightarrow> Inr ((k, s) # vs)))"

definition spec_data :: "RunSpec \<Rightarrow> templateData" where
  "spec_data spec = \<lparr>td_Repo = repo_FullName (spec_Repo spec), td_Platform = repo_Platform (spec_Repo spec),
     td_Reason = spec_Reason spec\<rparr>"

definition run_handle :: "'t gitlabci \<Rightarrow> RunSpec \<Rightarrow> int \<Rightarrow> runHandle" where
  "run_handle e spec pid = \<lparr>rh_Executor = ci_name e, rh_Platform = repo_Platform (spec_Repo spec),
     rh_Repo = repo_FullName (spec_Repo spec), rh_Project = ci_project e, rh_PipelineID = pid\<rparr>"

text \<open>
  Up to the poll: the rendered variables and inputs, the trigger call and the handle. The store is
  \<^const>\<open>None\<close> when \<open>handles\<close> is nil.
\<close>

definition gitlabci_trigger :: "'t ci_env \<Rightarrow> 't gitlabci \<Rightarrow> RunSpec \<Rightarrow> error + int" where
  "gitlabci_trigger E e spec =
     (case render E (spec_data spec) (ci_variables e) of
        Inl (k, err) \<Rightarrow> Inl (Wrapf (''render variable '' @ go_Quote (Quoted E) k @ '': '') err)
      | Inr vars \<Rightarrow>
          (case render E (spec_data spec) (ci_inputs e) of
             Inl (k, err) \<Rightarrow> Inl (Wrapf (''render input '' @ go_Quote (Quoted E) k @ '': '') err)
           | Inr inputs \<Rightarrow>
               (case RunPipelineTrigger E (ci_project e) (ci_ref e) (ci_triggerToken e) vars inputs of
                  Inl err \<Rightarrow> Inl (Wrapf (''trigger pipeline in '' @ go_Quote (Quoted E) (ci_project e) @ '': '') err)
                | Inr pid \<Rightarrow> Inr pid)))"

definition gitlabci_begin ::
  "'t ci_env \<Rightarrow> 's store_ops option \<Rightarrow> 't gitlabci \<Rightarrow> RunSpec \<Rightarrow> 's \<Rightarrow> (error + int) \<times> 's" where
  "gitlabci_begin E handles e spec s =
     (case gitlabci_trigger E e spec of
        Inl err \<Rightarrow> (Inl err, s)
      | Inr pid \<Rightarrow> (Inr pid,
          case (handles, json_Marshal E (run_handle e spec pid)) of
            (Some ops, Some data) \<Rightarrow> SaveRunHandle ops (Key (spec_Repo spec)) data s
          | _ \<Rightarrow> s))"

text \<open>The deferred call, made only when the handle was saved.\<close>

definition gitlabci_end :: "'t ci_env \<Rightarrow> 's store_ops option \<Rightarrow> 't gitlabci \<Rightarrow> RunSpec \<Rightarrow> int \<Rightarrow> 's \<Rightarrow> 's" where
  "gitlabci_end E handles e spec pid s =
     (case (handles, json_Marshal E (run_handle e spec pid)) of
        (Some ops, Some data) \<Rightarrow> DeleteRunHandle ops (Key (spec_Repo spec)) s
      | _ \<Rightarrow> s)"

text \<open>\<open>others\<close> is what the other goroutines do to the store while this one polls.\<close>

definition gitlabci_Run ::
  "'t ci_env \<Rightarrow> 's store_ops option \<Rightarrow> poll_env \<Rightarrow> ('s \<Rightarrow> 's) \<Rightarrow> 't gitlabci \<Rightarrow> RunSpec \<Rightarrow> 's \<Rightarrow>
   (error option \<times> 's) option" where
  "gitlabci_Run E handles obs others e spec s =
     (case gitlabci_begin E handles e spec s of
        (Inl err, s) \<Rightarrow> Some (Some err, s)
      | (Inr pid, s) \<Rightarrow>
          (case pollPipeline E obs e pid 0 0 of
             None \<Rightarrow> None
           | Some err \<Rightarrow> Some (err, gitlabci_end E handles e spec pid (others s))))"

section \<open>AdoptRunning\<close>

text \<open>An adopted run: the repository and what its \<open>Wait\<close> closure captures.\<close>

record adopted_pipeline =
  ap_Repo :: Repo
  ap_pipelineID :: int
  ap_handleKey :: string

definition adopted_of :: "string \<Rightarrow> runHandle \<Rightarrow> adopted_pipeline" where
  "adopted_of key h = \<lparr>ap_Repo = \<lparr>repo_Platform = rh_Platform h, repo_FullName = rh_Repo h\<rparr>,
     ap_pipelineID = rh_PipelineID h, ap_handleKey = key\<rparr>"

text \<open>The loop over the loaded map, whose keys come in the unspecified order of the iteration.\<close>

fun adopt_loop ::
  "'t ci_env \<Rightarrow> 's store_ops \<Rightarrow> 't gitlabci \<Rightarrow> (string \<rightharpoonup> string) \<Rightarrow> string list \<Rightarrow> adopted_pipeline list \<Rightarrow> 's \<Rightarrow>
   adopted_pipeline list \<times> 's" where
  "adopt_loop E ops e loaded [] adopted s = (adopted, s)"
| "adopt_loop E ops e loaded (key # keys) adopted s =
     (case loaded key of
        None \<Rightarrow> adopt_loop E ops e loaded keys adopted s
      | Some data \<Rightarrow>
          (case json_Unmarshal E data of
             Inl err \<Rightarrow> adopt_loop E ops e loaded keys adopted (DeleteRunHandle ops key s)
           | Inr h \<Rightarrow>
               if rh_Executor h \<noteq> ci_name e then adopt_loop E ops e loaded keys adopted s
               else adopt_loop E ops e loaded keys (adopted @ [adopted_of key h]) s))"

definition gitlabci_AdoptRunning ::
  "'t ci_env \<Rightarrow> 's store_ops option \<Rightarrow> ((string \<rightharpoonup> string) \<Rightarrow> string list) \<Rightarrow> 't gitlabci \<Rightarrow> 's \<Rightarrow>
   adopted_pipeline list \<times> 's" where
  "gitlabci_AdoptRunning E handles order e s =
     (case handles of
        None \<Rightarrow> ([], s)
      | Some ops \<Rightarrow> (case LoadRunHandles ops s of (loaded, s) \<Rightarrow> adopt_loop E ops e loaded (order loaded) [] s))"

definition adopted_Wait ::
  "'t ci_env \<Rightarrow> 's store_ops \<Rightarrow> poll_env \<Rightarrow> ('s \<Rightarrow> 's) \<Rightarrow> 't gitlabci \<Rightarrow> adopted_pipeline \<Rightarrow> 's \<Rightarrow> (error option \<times> 's) option" where
  "adopted_Wait E ops obs others e a s =
     (case pollPipeline E obs e (ap_pipelineID a) 0 0 of
        None \<Rightarrow> None
      | Some err \<Rightarrow> Some (err, DeleteRunHandle ops (ap_handleKey a) (others s)))"


section \<open>How the poll ends\<close>

text \<open>
  The outcome of a round without a counter: a failed request ends the poll when the four rounds before
  it failed as well.
\<close>

fun request_failed :: "poll_obs \<Rightarrow> bool" where
  "request_failed (ObsFailed err None) = True"
| "request_failed ob = False"

definition round_outcome :: "'t ci_env \<Rightarrow> (nat \<Rightarrow> poll_obs) \<Rightarrow> int \<Rightarrow> nat \<Rightarrow> error option option" where
  "round_outcome E ob pid n =
     (case ob n of
        ObsDone c \<Rightarrow> Some (Some c)
      | ObsFailed err (Some c) \<Rightarrow> Some (Some c)
      | ObsFailed err None \<Rightarrow>
          if 4 \<le> n \<and> request_failed (ob (n - 1)) \<and> request_failed (ob (n - 2)) \<and> request_failed (ob (n - 3))
             \<and> request_failed (ob (n - 4))
          then Some (Some (Wrapf (''poll pipeline '' @ fmt_d pid @ '': '') err)) else None
      | ObsStatus status \<Rightarrow>
          if status = ''success'' then Some None
          else if status \<in> {''failed'', ''canceled'', ''skipped''}
          then Some (Some (Errorf (''pipeline '' @ fmt_d pid @ '' finished with status '' @ go_Quote (Quoted E) status)))
          else None)"

text \<open>The failed requests in a row before a round.\<close>

fun streak :: "(nat \<Rightarrow> poll_obs) \<Rightarrow> nat \<Rightarrow> nat" where
  "streak ob 0 = 0"
| "streak ob (Suc n) = (if request_failed (ob n) then Suc (streak ob n) else 0)"

lemma streak_four:
  "4 \<le> streak ob n \<longleftrightarrow> 4 \<le> n \<and> request_failed (ob (n - 1)) \<and> request_failed (ob (n - 2))
     \<and> request_failed (ob (n - 3)) \<and> request_failed (ob (n - 4))"
proof -
  have ge: "Suc k \<le> streak ob n \<longleftrightarrow> 0 < n \<and> request_failed (ob (n - 1)) \<and> k \<le> streak ob (n - 1)" for k n
    by (cases n) auto
  show ?thesis using ge [of 3 n] ge [of 2 "n - 1"] ge [of 1 "n - 2"] ge [of 0 "n - 3"]
    by (auto simp: numeral_eq_Suc)
qed

text \<open>One round of the loop, whatever is called for the next ones.\<close>

lemma poll_body:
  fixes next_round :: "nat \<Rightarrow> nat \<Rightarrow> error option option"
  shows "(case ob n of
        ObsDone c \<Rightarrow> Some (Some c)
      | ObsFailed err ctx \<Rightarrow>
          (case ctx of
             Some c \<Rightarrow> Some (Some c)
           | None \<Rightarrow>
               if streak ob n + 1 \<ge> maxConsecutivePollErrors
               then Some (Some (Wrapf (''poll pipeline '' @ fmt_d pid @ '': '') err))
               else next_round (n + 1) (streak ob n + 1))
      | ObsStatus status \<Rightarrow>
          if status = ''success'' then Some None
          else if status = ''failed'' \<or> status = ''canceled'' \<or> status = ''skipped''
          then Some (Some (Errorf (''pipeline '' @ fmt_d pid @ '' finished with status '' @ go_Quote (Quoted E) status)))
          else next_round (n + 1) 0)
    = (case round_outcome E ob pid n of Some r \<Rightarrow> Some r | None \<Rightarrow> next_round (Suc n) (streak ob (Suc n)))"
proof (cases "ob n")
  case (ObsDone c)
  then show ?thesis by (simp add: round_outcome_def)
next
  case (ObsFailed err ctx)
  then show ?thesis
    by (cases ctx)
      (simp_all add: round_outcome_def maxConsecutivePollErrors_def streak_four [symmetric, simplified])
next
  case (ObsStatus status)
  then show ?thesis by (simp add: round_outcome_def)
qed

lemma poll_round:
  "pollPipeline E obs e pid n (streak (obs (ci_project e) pid) n) =
    (case round_outcome E (obs (ci_project e) pid) pid n of
       Some r \<Rightarrow> Some r
     | None \<Rightarrow> pollPipeline E obs e pid (Suc n) (streak (obs (ci_project e) pid) (Suc n)))"
  by (subst pollPipeline.simps) (rule poll_body)

lemma poll_found:
  assumes "pollPipeline E obs e pid n c = Some r" and "c = streak (obs (ci_project e) pid) n"
  shows "\<exists>k. round_outcome E (obs (ci_project e) pid) pid (n + k) = Some r
     \<and> (\<forall>j<k. round_outcome E (obs (ci_project e) pid) pid (n + j) = None)"
  using assms
proof (induction E obs e pid n c r rule: pollPipeline.raw_induct [rotated, consumes 1, case_names one_round])
  case (one_round rec E obs e pid n c r)
  let ?ob = "obs (ci_project e) pid"
  have body: "(case round_outcome E ?ob pid n of Some r \<Rightarrow> Some r
      | None \<Rightarrow> rec E obs e pid (Suc n) (streak ?ob (Suc n))) = Some r"
    using one_round(2,3) by hypsubst (simp only: poll_body [of ?ob n pid "\<lambda>n c. rec E obs e pid n c" E])
  show ?case
  proof (cases "round_outcome E ?ob pid n")
    case None
    with body have "rec E obs e pid (Suc n) (streak ?ob (Suc n)) = Some r" by (simp del: streak.simps)
    from one_round(1) [OF this refl] obtain k where k: "round_outcome E ?ob pid (Suc n + k) = Some r"
      "\<forall>j<k. round_outcome E ?ob pid (Suc n + j) = None" by blast
    with None show ?thesis by (intro first_outcome_Suc [of "round_outcome E ?ob pid"]) blast+
  next
    case (Some r')
    with body show ?thesis by (intro exI [of _ 0]) simp
  qed
qed

lemma poll_iff:
  "pollPipeline E obs e pid 0 0 = Some r \<longleftrightarrow>
     (\<exists>n. round_outcome E (obs (ci_project e) pid) pid n = Some r
        \<and> (\<forall>m<n. round_outcome E (obs (ci_project e) pid) pid m = None))"
  using poll_found [of E obs e pid 0 0 r]
    loop_finds [of "\<lambda>n. pollPipeline E obs e pid n (streak (obs (ci_project e) pid) n)", OF poll_round, of 0 _ r]
  by auto

lemma poll_returns:
  assumes "round_outcome E (obs (ci_project e) pid) pid n \<noteq> None"
  shows "\<exists>r. pollPipeline E obs e pid 0 0 = Some r"
  using loop_returns [of "\<lambda>n. pollPipeline E obs e pid n (streak (obs (ci_project e) pid) n)", OF poll_round assms] by simp

section \<open>Cancellation\<close>

text \<open>The context of the run ends: some round of every poll observes it.\<close>

definition gitlabci_ctx_ends :: "'t ci_env \<times> 's store_ops option \<times> poll_env \<times> ('s \<Rightarrow> 's) \<times> 't gitlabci \<times> 's \<Rightarrow> bool" where
  "gitlabci_ctx_ends env = (case env of (E, handles, obs, others, e, s) \<Rightarrow>
     \<forall>pid. \<exists>n c err. obs (ci_project e) pid n = ObsDone c \<or> obs (ci_project e) pid n = ObsFailed err (Some c))"

definition gitlabci_run_env ::
  "'t ci_env \<times> 's store_ops option \<times> poll_env \<times> ('s \<Rightarrow> 's) \<times> 't gitlabci \<times> 's \<Rightarrow> RunSpec \<Rightarrow> error option option" where
  "gitlabci_run_env env spec = (case env of (E, handles, obs, others, e, s) \<Rightarrow>
     map_option fst (gitlabci_Run E handles obs others e spec s))"

lemma poll_honours_ctx:
  assumes "obs (ci_project e) pid n = ObsDone c \<or> obs (ci_project e) pid n = ObsFailed err (Some c)"
  shows "\<exists>r. pollPipeline E obs e pid 0 0 = Some r"
  using assms poll_returns [of E obs e pid n] by (auto simp: round_outcome_def)

interpretation gitlabci: run_executor gitlabci_run_env gitlabci_ctx_ends
proof unfold_locales
  fix env :: "'t ci_env \<times> 's store_ops option \<times> poll_env \<times> ('s \<Rightarrow> 's) \<times> 't gitlabci \<times> 's" and spec
  assume "gitlabci_ctx_ends env"
  moreover obtain E handles obs others e s where env: "env = (E, handles, obs, others, e, s)" by (rule prod_cases6)
  ultimately have "\<exists>r. pollPipeline E obs e pid 0 0 = Some r" for pid
    using poll_honours_ctx [of obs e pid] by (auto simp: gitlabci_ctx_ends_def) metis
  then have "pollPipeline E obs e pid 0 0 \<noteq> None" for pid by auto
  then show "gitlabci_run_env env spec \<noteq> None"
    by (simp add: gitlabci_run_env_def env gitlabci_Run_def del: not_None_eq split: prod.split sum.split option.split)
qed


section \<open>Handles\<close>

context store_contract
begin

lemma adopt_loop_effect:
  assumes "invar s" and "adopt_loop E ops e loaded keys adopted s = (adopted', s')"
  shows "invar s' \<and> view s' = view s
    \<and> adopted' = adopted @ concat (map (\<lambda>k. case loaded k of None \<Rightarrow> [] | Some d \<Rightarrow>
         (case json_Unmarshal E d of Inl err \<Rightarrow> [] | Inr h \<Rightarrow> if rh_Executor h = ci_name e then [adopted_of k h] else [])) keys)
    \<and> handles s' = (\<lambda>k. if k \<in> set keys \<and> (\<exists>d err. loaded k = Some d \<and> json_Unmarshal E d = Inl err) then None else handles s k)"
  using assms
proof (induction keys arbitrary: adopted s)
  case Nil
  then show ?case by simp
next
  case (Cons key keys)
  show ?case
  proof (cases "\<exists>d err. loaded key = Some d \<and> json_Unmarshal E d = Inl err")
    case True
    then obtain d err where d: "loaded key = Some d" "json_Unmarshal E d = Inl err" by blast
    let ?s = "DeleteRunHandle ops key s"
    have s: "handles ?s = (handles s)(key := None)" "view ?s = view s" "invar ?s"
      using delete_spec [OF Cons.prems(1) refl] by simp_all
    from Cons.prems(2) d have "adopt_loop E ops e loaded keys adopted ?s = (adopted', s')" by simp
    from Cons.IH [OF s(3) this] s d show ?thesis by (auto simp: fun_eq_iff)
  next
    case False
    then show ?thesis
      using Cons.prems Cons.IH [of s adopted] Cons.IH [of s "adopted @ [_]"]
      by (auto simp: fun_eq_iff split: option.splits sum.splits if_splits)
  qed
qed

lemma adopt_exact:
  assumes "invar s" and "set (order (handles s)) = dom (handles s)" and "gitlabci_AdoptRunning E (Some ops) order e s = (runs, s')"
  shows "set runs = {adopted_of k h |k d h. handles s k = Some d \<and> json_Unmarshal E d = Inr h \<and> rh_Executor h = ci_name e}
    \<and> (\<forall>k. handles s' k = (case handles s k of None \<Rightarrow> None | Some d \<Rightarrow>
         (case json_Unmarshal E d of Inl err \<Rightarrow> None | Inr h \<Rightarrow> Some d)))
    \<and> view s' = view s \<and> invar s'"
proof -
  have "adopt_loop E ops e (handles s) (order (handles s)) [] s = (runs, s')"
    using assms(3) load_spec [OF assms(1)] by (simp add: gitlabci_AdoptRunning_def)
  note loop = adopt_loop_effect [OF assms(1) this]
  define pick where "pick k = (case handles s k of None \<Rightarrow> [] | Some d \<Rightarrow>
      (case json_Unmarshal E d of Inl err \<Rightarrow> [] | Inr h \<Rightarrow> if rh_Executor h = ci_name e then [adopted_of k h] else []))" for k
  have pick: "a \<in> set (pick k) \<longleftrightarrow> (\<exists>d h. handles s k = Some d \<and> json_Unmarshal E d = Inr h
      \<and> rh_Executor h = ci_name e \<and> a = adopted_of k h)" for a k
  proof (cases "handles s k")
    case (Some d)
    then show ?thesis by (cases "json_Unmarshal E d") (auto simp: pick_def)
  qed (simp add: pick_def)
  have "runs = concat (map pick (order (handles s)))" using loop unfolding pick_def by simp
  then have "a \<in> set runs \<longleftrightarrow> (\<exists>k \<in> dom (handles s). a \<in> set (pick k))" for a by (simp add: assms(2))
  then have "set runs = {adopted_of k h |k d h. handles s k = Some d \<and> json_Unmarshal E d = Inr h \<and> rh_Executor h = ci_name e}"
    unfolding pick by blast
  moreover have "handles s' k = (case handles s k of None \<Rightarrow> None | Some d \<Rightarrow>
      (case json_Unmarshal E d of Inl err \<Rightarrow> None | Inr h \<Rightarrow> Some d))" for k
    using loop assms(2) by (auto split: option.split sum.split)
  ultimately show ?thesis using loop by blast
qed

lemma begin_handle:
  assumes "invar s" and "gitlabci_begin E (Some ops) e spec s = (Inr pid, s')"
    and "json_Marshal E (run_handle e spec pid) = Some d"
  shows "handles s' = (handles s)(Key (spec_Repo spec) \<mapsto> d) \<and> view s' = view s \<and> invar s'"
  using assms save_spec [OF assms(1) refl, of "Key (spec_Repo spec)" d]
  by (auto simp: gitlabci_begin_def split: sum.splits)

lemma run_handles:
  assumes "invar s" and "gitlabci_Run E (Some ops) obs others e spec s = Some (err, s')"
    and "\<And>h. json_Marshal E h \<noteq> None" and "\<And>s. invar s \<Longrightarrow> invar (others s)"
  shows "(\<exists>pid. gitlabci_trigger E e spec = Inr pid) \<longrightarrow> handles s' (Key (spec_Repo spec)) = None"
proof
  assume "\<exists>pid. gitlabci_trigger E e spec = Inr pid"
  then obtain pid where pid: "gitlabci_trigger E e spec = Inr pid" by blast
  then obtain s1 where s1: "gitlabci_begin E (Some ops) e spec s = (Inr pid, s1)" by (simp add: gitlabci_begin_def)
  obtain d where d: "json_Marshal E (run_handle e spec pid) = Some d" using assms(3) by blast
  have "invar (others s1)" using begin_handle [OF assms(1) s1 d] assms(4) by blast
  moreover have "s' = DeleteRunHandle ops (Key (spec_Repo spec)) (others s1)"
    using assms(2) s1 d by (auto simp: gitlabci_Run_def gitlabci_end_def split: option.splits)
  ultimately show "handles s' (Key (spec_Repo spec)) = None" using delete_spec by simp
qed

end


text \<open>
  The project in the handle is not used: a resumed poll asks the project of the current configuration.
\<close>

lemma adopted_poll_uses_current_project:
  "adopted_Wait E ops obs others e (adopted_of key h) s
     = adopted_Wait E ops obs others e (adopted_of key (h\<lparr>rh_Project := p\<rparr>)) s"
  by (simp add: adopted_Wait_def adopted_of_def)

section \<open>Properties\<close>

text \<open>
  C17. The poll returns exactly when some round has an outcome, and it returns the outcome of the first
  such round: the context's error when the context has ended, nil for the status \<open>success\<close>, an error for
  \<open>failed\<close>, \<open>canceled\<close> and \<open>skipped\<close>, and the error of the request when it is the fifth failed one in a row. Any
  other status and up to four failed requests in a row only make it go on.
\<close>

theorem poll_ends_exactly:
  "pollPipeline E obs e pid 0 0 = Some r \<longleftrightarrow>
     (\<exists>n. round_outcome E (obs (ci_project e) pid) pid n = Some r
        \<and> (\<forall>m<n. round_outcome E (obs (ci_project e) pid) pid m = None))"
  by (rule poll_iff)

definition sample_spec :: RunSpec where
  "sample_spec = \<lparr>spec_Repo = \<lparr>repo_Platform = ''gl'', repo_FullName = ''g/app''\<rparr>, spec_Reason = ReasonPush\<rparr>"

definition sample_ci :: "string gitlabci" where
  "sample_ci = \<lparr>ci_name = ''ci'', ci_project = ''infra/renovate'', ci_ref = ''main'', ci_triggerToken = ''t'',
     ci_variables = [(''REPO'', ''repo'')], ci_inputs = [], ci_pollInterval = 15 * second\<rparr>"

definition sample_handle :: runHandle where
  "sample_handle = run_handle sample_ci sample_spec 7"

definition sample_ci_env :: "string ci_env" where
  "sample_ci_env = \<lparr>Parse = (\<lambda>k v. Inr v), Execute = (\<lambda>t data. Inr (td_Repo data)),
     RunPipelineTrigger = (\<lambda>project ref token vars inputs. Inr 7),
     json_Marshal = (\<lambda>h. Some ''{}''), json_Unmarshal = (\<lambda>d. Inr sample_handle), Quoted = (\<lambda>s. s)\<rparr>"

text \<open>Four failed requests, a running pipeline, another failed request, success.\<close>

definition sample_obs :: poll_env where
  "sample_obs project pid n =
     (if n = 4 then ObsStatus ''running'' else if n = 6 then ObsStatus ''success''
      else ObsFailed (Errorf ''502'') None)"

theorem poll_ends_exactly_witness:
  "pollPipeline sample_ci_env sample_obs sample_ci 7 0 0 = Some None"
proof -
  have none: "round_outcome sample_ci_env (sample_obs ''infra/renovate'' 7) 7 m = None" if "m < 6" for m
  proof -
    have "m \<in> {0, 1, 2, 3, 4, 5}" using that by auto
    then show ?thesis by (auto simp: round_outcome_def sample_obs_def)
  qed
  moreover have "round_outcome sample_ci_env (sample_obs ''infra/renovate'' 7) 7 6 = Some None"
    by (simp add: round_outcome_def sample_obs_def)
  ultimately show ?thesis unfolding poll_ends_exactly by (intro exI [of _ 6]) (simp add: sample_ci_def)
qed

text \<open>
  C16. A pipeline survives a restart of the server. When \<open>Run\<close> has triggered a pipeline, its handle is in the
  store; an executor of the same name that starts over the store, with the handle still there, adopts
  exactly the pipelines whose handles carry its name, this one among them with its repository and its
  id. Adoption deletes the handles that do not decode and keeps all others. When the resumed poll
  returns, the handle is deleted. The store is any that meets the store contract, and the JSON package
  decodes what it has encoded.
\<close>

theorem pipeline_survives_restart:
  assumes store: "store_contract ops view handles invar clock_ok"
    and started: "invar s" "gitlabci_begin E (Some ops) e spec s = (Inr pid, s1)"
    and json: "json_Marshal E (run_handle e spec pid) = Some d" "json_Unmarshal E d = Inr (run_handle e spec pid)"
    and restart: "invar s2" "handles s2 (Key (spec_Repo spec)) = handles s1 (Key (spec_Repo spec))" "ci_name e' = ci_name e"
    and order: "set (order (handles s2)) = dom (handles s2)"
    and adopt: "gitlabci_AdoptRunning E (Some ops) order e' s2 = (runs, s3)"
  shows "\<lparr>ap_Repo = spec_Repo spec, ap_pipelineID = pid, ap_handleKey = Key (spec_Repo spec)\<rparr> \<in> set runs
    \<and> set runs = {adopted_of k h |k d h. handles s2 k = Some d \<and> json_Unmarshal E d = Inr h \<and> rh_Executor h = ci_name e'}
    \<and> (\<forall>k. handles s3 k = (case handles s2 k of None \<Rightarrow> None | Some d \<Rightarrow>
           (case json_Unmarshal E d of Inl err \<Rightarrow> None | Inr h \<Rightarrow> Some d)))
    \<and> (\<forall>others obs a s4 err s5. invar (others s4) \<longrightarrow> adopted_Wait E ops obs others e' a s4 = Some (err, s5)
           \<longrightarrow> handles s5 (ap_handleKey a) = None)"
proof -
  note exact = store_contract.adopt_exact [OF store restart(1) order adopt]
  define h where "h = run_handle e spec pid"
  have h: "adopted_of (Key (spec_Repo spec)) h
      = \<lparr>ap_Repo = spec_Repo spec, ap_pipelineID = pid, ap_handleKey = Key (spec_Repo spec)\<rparr>" "rh_Executor h = ci_name e'"
    using restart(3) by (simp_all add: adopted_of_def run_handle_def h_def)
  have "handles s2 (Key (spec_Repo spec)) = Some d"
    using store_contract.begin_handle [OF store started json(1)] restart(2) by simp
  with exact json(2) h have "\<lparr>ap_Repo = spec_Repo spec, ap_pipelineID = pid, ap_handleKey = Key (spec_Repo spec)\<rparr> \<in> set runs"
    unfolding h_def [symmetric] h(1) [symmetric] by blast
  moreover have "handles s5 (ap_handleKey a) = None"
    if "invar (others s4)" "adopted_Wait E ops obs others e' a s4 = Some (err, s5)" for others obs a s4 err s5
    using that store_contract.delete_spec [OF store that(1) refl, of "ap_handleKey a"]
    by (auto simp: adopted_Wait_def split: option.splits)
  ultimately show ?thesis using exact by blast
qed

theorem pipeline_survives_restart_witness:
  "\<exists>s1 runs s3. gitlabci_begin sample_ci_env (Some memory_ops) sample_ci sample_spec NewMemory = (Inr 7, s1)
     \<and> gitlabci_AdoptRunning sample_ci_env (Some memory_ops) (\<lambda>m. [''gl:g/app'']) sample_ci s1 = (runs, s3)
     \<and> \<lparr>ap_Repo = \<lparr>repo_Platform = ''gl'', repo_FullName = ''g/app''\<rparr>, ap_pipelineID = 7, ap_handleKey = ''gl:g/app''\<rparr> \<in> set runs"
proof -
  have trig: "gitlabci_trigger sample_ci_env sample_ci sample_spec = Inr 7"
    by (simp add: gitlabci_trigger_def sample_ci_env_def sample_ci_def)
  define s1 where "s1 = memory_SaveRunHandle ''gl:g/app'' ''{}'' NewMemory"
  have b: "gitlabci_begin sample_ci_env (Some memory_ops) sample_ci sample_spec NewMemory = (Inr 7, s1)"
    unfolding gitlabci_begin_def trig
    by (simp add: s1_def memory_ops_def sample_ci_env_def sample_spec_def Key_def)
  obtain runs s3 where a: "gitlabci_AdoptRunning sample_ci_env (Some memory_ops) (\<lambda>m. [''gl:g/app'']) sample_ci s1 = (runs, s3)"
    by fastforce
  have m: "json_Marshal sample_ci_env (run_handle sample_ci sample_spec 7) = Some ''{}''"
      "json_Unmarshal sample_ci_env ''{}'' = Inr (run_handle sample_ci sample_spec 7)"
    by (simp_all add: sample_ci_env_def sample_handle_def)
  have "set [''gl:g/app''] = dom (mem_handles s1)"
    by (simp add: s1_def memory_SaveRunHandle_def NewMemory_def)
  from pipeline_survives_restart [OF mem.store_contract_axioms TrueI b m TrueI refl refl, of "\<lambda>m. [''gl:g/app'']", OF this a]
  show ?thesis using a b by (auto simp: sample_spec_def Key_def)
qed

end
