(* ===== verification/Kubernetes.thy ===== *)
theory Kubernetes
  imports Complex_Main Exec_Base Crypto
begin

text \<open>
  The kubernetes executor (\<open>src/internal/executor/kubernetes/kubernetes.go\<close>): the Job it builds for a run,
  the wait for its end and the adoption of jobs that are still active. The cluster is a parameter.
\<close>

section \<open>Labels and names\<close>

definition labelManagedBy :: string where "labelManagedBy = ''app.kubernetes.io/managed-by''"
definition labelManagedByVal :: string where "labelManagedByVal = ''renovate-server''"
definition labelRepoHash :: string where "labelRepoHash = ''renovate-server.io/repo-hash''"
definition annotationRepo :: string where "annotationRepo = ''renovate-server.io/repo''"
definition annotationPlatform :: string where "annotationPlatform = ''renovate-server.io/platform''"
definition annotationReason :: string where "annotationReason = ''renovate-server.io/reason''"
definition kube_cacheMountPath :: string where "kube_cacheMountPath = ''/tmp/renovate/cache''"

definition repoHash :: "string \<Rightarrow> string" where
  "repoHash key = take 16 (hex_EncodeToString (sha256 key))"

text \<open>\<open>strconv.FormatInt(n, 36)\<close>.\<close>

definition digit36 :: "int \<Rightarrow> char" where
  "digit36 n = (if n < 10 then char_of (nat (48 + n)) else char_of (nat (87 + n)))"

function base36 :: "int \<Rightarrow> string" where
  "base36 n = (if n < 36 then [digit36 n] else base36 (n div 36) @ [digit36 (n mod 36)])"
  by pat_completeness auto
termination
  by (relation "measure nat") auto

declare base36.simps [simp del]

definition FormatInt36 :: "int \<Rightarrow> string" where
  "FormatInt36 n = (if n < 0 then CHR ''-'' # base36 (- n) else base36 n)"

definition job_name :: "string \<Rightarrow> go_time \<Rightarrow> string" where
  "job_name hash unixNano = ''renovate-'' @ hash @ ''-'' @ FormatInt36 unixNano"

section \<open>Seconds of a duration\<close>

text \<open>
  \<open>int32(d.Seconds())\<close> goes through a float64: the whole seconds plus the rest divided by 10^9, each
  operation rounded to 53 significant bits, ties to even; then the fraction is cut off. What the
  conversion gives for a value outside the 32-bit range is left to the implementation (\<open>conv\<close>).
\<close>

function ilog2 :: "int \<Rightarrow> int" where
  "ilog2 n = (if n < 2 then 0 else 1 + ilog2 (n div 2))"
  by pat_completeness auto
termination
  by (relation "measure nat") auto

declare ilog2.simps [simp del]

definition pow2 :: "int \<Rightarrow> rat" where
  "pow2 e = (if 0 \<le> e then 2 ^ nat e else 1 / 2 ^ nat (- e))"

definition flog2 :: "rat \<Rightarrow> int" where
  "flog2 x = (case quotient_of x of (p, q) \<Rightarrow> let k = ilog2 p - ilog2 q in if pow2 k \<le> x then k else k - 1)"

definition rne :: "rat \<Rightarrow> int" where
  "rne x = (let f = \<lfloor>x\<rfloor>; r = x - of_int f
     in if r < 1 / 2 then f else if r > 1 / 2 then f + 1 else if even f then f else f + 1)"

definition f64 :: "rat \<Rightarrow> rat" where
  "f64 x = (if x = 0 then 0 else let e = flog2 \<bar>x\<bar> - 52 in of_int (rne (x / pow2 e)) * pow2 e)"

definition go_quot :: "int \<Rightarrow> int \<Rightarrow> int" where
  "go_quot a b = sgn a * (\<bar>a\<bar> div b)"

definition dur_Seconds :: "duration \<Rightarrow> rat" where
  "dur_Seconds d = (let sec = go_quot d second; nsec = d - sec * second
     in f64 (of_int sec + f64 (of_int nsec / 1000000000)))"

definition float_int32 :: "(rat \<Rightarrow> int) \<Rightarrow> rat \<Rightarrow> int" where
  "float_int32 conv x = (let n = (if x < 0 then - \<lfloor>- x\<rfloor> else \<lfloor>x\<rfloor>)
     in if - (2 ^ 31) \<le> n \<and> n < 2 ^ 31 then n else conv x)"

section \<open>Jobs\<close>

text \<open>The parts of a Job that the executor sets or reads; \<open>'q\<close> is a parsed resource quantity.\<close>

record k8s_volume =
  vol_Name :: string
  vol_ClaimName :: string

record k8s_mount =
  mnt_Name :: string
  mnt_Path :: string

record 'q k8s_container =
  ct_Name :: string
  ct_Image :: string
  ct_Env :: "(string \<times> string) list"
  ct_VolumeMounts :: "k8s_mount list"
  ct_Requests :: "(string \<times> 'q) list option"
  ct_Limits :: "(string \<times> 'q) list option"
  ct_AllowPrivilegeEscalation :: bool

record 'q k8s_pod =
  pd_Labels :: gomap
  pd_RestartPolicy :: string
  pd_ServiceAccountName :: string
  pd_NodeSelector :: gomap
  pd_Tolerations :: "Toleration list"
  pd_ImagePullSecrets :: "string list"
  pd_RunAsNonRoot :: bool
  pd_Volumes :: "k8s_volume list"
  pd_Containers :: "'q k8s_container list"

record 'q k8s_job =
  job_Name :: string
  job_Namespace :: string
  job_Labels :: gomap
  job_Annotations :: gomap
  job_BackoffLimit :: int
  job_TTLSecondsAfterFinished :: int
  job_ActiveDeadlineSeconds :: "int option"
  job_Template :: "'q k8s_pod"
  job_Succeeded :: int
  job_Failed :: int

record kubernetes =
  ku_name :: string
  ku_namespace :: string
  ku_image :: string
  ku_cachePVC :: string
  ku_jobTTL :: duration
  ku_env :: gomap
  ku_pod :: PodConfig
  ku_pollInterval :: duration

definition kubernetes_New :: "ExecutorConfig \<Rightarrow> kubernetes" where
  "kubernetes_New cfg = \<lparr>ku_name = ec_Name cfg, ku_namespace = ec_Namespace cfg, ku_image = ec_Image cfg,
     ku_cachePVC = ec_CachePVC cfg, ku_jobTTL = ec_JobTTL cfg, ku_env = ec_Env cfg, ku_pod = ec_Pod cfg,
     ku_pollInterval = second\<rparr>"

text \<open>A nil map for an empty configuration (\<^const>\<open>None\<close>); quantities that do not parse are skipped.\<close>

fun quantities_loop :: "(string \<Rightarrow> 'q option) \<Rightarrow> gomap \<Rightarrow> (string \<times> 'q) list" where
  "quantities_loop parseQ [] = []"
| "quantities_loop parseQ ((name, val) # rest) =
     (case parseQ val of
        None \<Rightarrow> quantities_loop parseQ rest
      | Some q \<Rightarrow> (name, q) # quantities_loop parseQ rest)"

definition resourceList :: "(string \<Rightarrow> 'q option) \<Rightarrow> gomap \<Rightarrow> (string \<times> 'q) list option" where
  "resourceList parseQ quantities = (if quantities = [] then None else Some (quantities_loop parseQ quantities))"

definition job_env :: "kubernetes \<Rightarrow> RunSpec \<Rightarrow> (string \<times> string) list" where
  "job_env e spec = (''RENOVATE_REPOSITORIES'', repo_FullName (spec_Repo spec)) # sorted_env (ku_env e)"

definition job_container :: "(string \<Rightarrow> 'q option) \<Rightarrow> kubernetes \<Rightarrow> RunSpec \<Rightarrow> 'q k8s_container" where
  "job_container parseQ e spec = \<lparr>ct_Name = ''renovate'', ct_Image = ku_image e, ct_Env = job_env e spec,
     ct_VolumeMounts = (if ku_cachePVC e \<noteq> [] then [\<lparr>mnt_Name = ''cache'', mnt_Path = kube_cacheMountPath\<rparr>] else []),
     ct_Requests = resourceList parseQ (res_Requests (pod_Resources (ku_pod e))),
     ct_Limits = resourceList parseQ (res_Limits (pod_Resources (ku_pod e))),
     ct_AllowPrivilegeEscalation = False\<rparr>"

definition buildJob ::
  "(string \<Rightarrow> 'q option) \<Rightarrow> (rat \<Rightarrow> int) \<Rightarrow> go_time \<Rightarrow> kubernetes \<Rightarrow> RunSpec \<Rightarrow> 'q k8s_job" where
  "buildJob parseQ conv now e spec =
     (let hash = repoHash (Key (spec_Repo spec)) in
      \<lparr>job_Name = job_name hash now, job_Namespace = ku_namespace e,
       job_Labels = [(labelManagedBy, labelManagedByVal), (labelRepoHash, hash)],
       job_Annotations = [(annotationRepo, repo_FullName (spec_Repo spec)),
         (annotationPlatform, repo_Platform (spec_Repo spec)), (annotationReason, spec_Reason spec)],
       job_BackoffLimit = 0,
       job_TTLSecondsAfterFinished = float_int32 conv (dur_Seconds (ku_jobTTL e)),
       job_ActiveDeadlineSeconds = (if pod_ActiveDeadlineSeconds (ku_pod e) > 0
         then Some (pod_ActiveDeadlineSeconds (ku_pod e)) else None),
       job_Template = \<lparr>pd_Labels = [(labelManagedBy, labelManagedByVal)], pd_RestartPolicy = ''Never'',
         pd_ServiceAccountName = pod_ServiceAccountName (ku_pod e), pd_NodeSelector = pod_NodeSelector (ku_pod e),
         pd_Tolerations = pod_Tolerations (ku_pod e), pd_ImagePullSecrets = pod_ImagePullSecrets (ku_pod e),
         pd_RunAsNonRoot = True,
         pd_Volumes = (if ku_cachePVC e \<noteq> [] then [\<lparr>vol_Name = ''cache'', vol_ClaimName = ku_cachePVC e\<rparr>] else []),
         pd_Containers = [job_container parseQ e spec]\<rparr>,
       job_Succeeded = 0, job_Failed = 0\<rparr>)"

section \<open>Waiting\<close>

text \<open>
  What one round of the wait observes: the end of the context, a failed request (with \<open>ctx.Err()\<close> then), or the
  numbers of succeeded and failed pods of the job.
\<close>

datatype job_obs = JobCtxDone error | JobGetFailed error "error option" | JobStatus int int

type_synonym job_watch = "string \<Rightarrow> string \<Rightarrow> nat \<Rightarrow> job_obs"

partial_function (option) waitForJob ::
  "(string \<Rightarrow> string) \<Rightarrow> job_watch \<Rightarrow> kubernetes \<Rightarrow> string \<Rightarrow> nat \<Rightarrow> error option option" where
  "waitForJob uni obs e name n =
     (case obs (ku_namespace e) name n of
        JobCtxDone c \<Rightarrow> Some (Some c)
      | JobGetFailed err ctx \<Rightarrow>
          (case ctx of
             Some c \<Rightarrow> Some (Some c)
           | None \<Rightarrow> Some (Some (Wrapf (''get job '' @ go_Quote uni name @ '': '') err)))
      | JobStatus succeeded failed \<Rightarrow>
          if succeeded > 0 then Some None
          else if failed > 0 then Some (Some (Errorf (''job '' @ go_Quote uni name @ '' failed'')))
          else waitForJob uni obs e name (n + 1))"

declare waitForJob.simps [code]

text \<open>\<open>create\<close> is the Create call: the name of the created job, or an error.\<close>

definition kubernetes_Run ::
  "(string \<Rightarrow> string) \<Rightarrow> (string \<Rightarrow> 'q option) \<Rightarrow> (rat \<Rightarrow> int) \<Rightarrow> ('q k8s_job \<Rightarrow> error + string) \<Rightarrow> job_watch \<Rightarrow> go_time \<Rightarrow>
   kubernetes \<Rightarrow> RunSpec \<Rightarrow> error option option" where
  "kubernetes_Run uni parseQ conv create obs now e spec =
     (case create (buildJob parseQ conv now e spec) of
        Inl err \<Rightarrow> Some (Some (Wrapf ''create job: '' err))
      | Inr name \<Rightarrow> waitForJob uni obs e name 0)"

section \<open>Adoption\<close>

record adopted_job =
  aj_Repo :: Repo
  aj_jobName :: string

definition annotation :: "'q k8s_job \<Rightarrow> string \<Rightarrow> string" where
  "annotation job key = (case map_of (job_Annotations job) key of None \<Rightarrow> '''' | Some v \<Rightarrow> v)"

fun adopt_jobs :: "'q k8s_job list \<Rightarrow> adopted_job list" where
  "adopt_jobs [] = []"
| "adopt_jobs (job # jobs) =
     (if job_Succeeded job > 0 \<or> job_Failed job > 0 then adopt_jobs jobs
      else let repo = \<lparr>repo_Platform = annotation job annotationPlatform, repo_FullName = annotation job annotationRepo\<rparr> in
        if repo_Platform repo = [] \<or> repo_FullName repo = [] then adopt_jobs jobs
        else \<lparr>aj_Repo = repo, aj_jobName = job_Name job\<rparr> # adopt_jobs jobs)"

text \<open>
  \<open>list\<close> is the List call on a namespace with a label selector. \<open>sort.Slice\<close> leaves the order of equal keys
  open; a stable sort is one of its results.
\<close>

definition kubernetes_AdoptRunning ::
  "(string \<Rightarrow> string \<Rightarrow> error + 'q k8s_job list) \<Rightarrow> kubernetes \<Rightarrow> error + adopted_job list" where
  "kubernetes_AdoptRunning listJobs e =
     (case listJobs (ku_namespace e) (labelManagedBy @ ''='' @ labelManagedByVal) of
        Inl err \<Rightarrow> Inl (Wrapf ''list managed jobs: '' err)
      | Inr items \<Rightarrow> Inr (sort_key (\<lambda>a. Key (aj_Repo a)) (adopt_jobs items)))"

definition adopted_job_Wait ::
  "(string \<Rightarrow> string) \<Rightarrow> job_watch \<Rightarrow> kubernetes \<Rightarrow> adopted_job \<Rightarrow> error option option" where
  "adopted_job_Wait uni obs e a = waitForJob uni obs e (aj_jobName a) 0"


section \<open>Names are DNS labels\<close>

text \<open>What the cluster accepts as the name of a Job's pods: RFC 1123 labels.\<close>

definition dns_char :: "char \<Rightarrow> bool" where
  "dns_char c \<longleftrightarrow> (48 \<le> (of_char c :: nat) \<and> (of_char c :: nat) \<le> 57) \<or> (97 \<le> (of_char c :: nat) \<and> (of_char c :: nat) \<le> 122)"

definition dns_label :: "string \<Rightarrow> bool" where
  "dns_label s \<longleftrightarrow> s \<noteq> [] \<and> length s \<le> 63 \<and> dns_char (hd s) \<and> dns_char (last s)
     \<and> list_all (\<lambda>c. dns_char c \<or> c = CHR ''-'') s"

lemma dns_hex_digit: "n < 16 \<Longrightarrow> dns_char (hex_digit n)"
  by (auto simp: dns_char_def hex_digit_def)

lemma dns_hash: "list_all dns_char (repoHash key)"
proof -
  have byte: "(of_char c :: nat) < 256" for c :: char
    using of_char_mod_256 [of c] by (metis mod_less_divisor zero_less_numeral)
  have "list_all dns_char (hex_byte c)" for c
    using byte [of c] by (auto simp: hex_byte_def Let_def less_mult_imp_div_less intro!: dns_hex_digit)
  then have "list_all dns_char (hex_EncodeToString s)" for s
    by (auto simp: hex_EncodeToString_def list_all_iff)
  then show ?thesis by (auto simp: repoHash_def list_all_iff dest: in_set_takeD)
qed

lemma dns_digit36: "0 \<le> n \<Longrightarrow> n < 36 \<Longrightarrow> dns_char (digit36 n)"
  by (auto simp: dns_char_def digit36_def nat_less_iff)

lemma base36_shape: "0 \<le> n \<Longrightarrow> base36 n \<noteq> [] \<and> list_all dns_char (base36 n)"
proof (induction n rule: base36.induct)
  case (1 n)
  show ?case
  proof (cases "n < 36")
    case True
    with 1(2) show ?thesis by (simp add: base36.simps [of n] dns_digit36)
  next
    case False
    with 1 show ?thesis by (simp add: base36.simps [of n] dns_digit36 list_all_iff)
  qed
qed

lemma base36_length: "0 \<le> n \<Longrightarrow> n < 36 ^ Suc k \<Longrightarrow> length (base36 n) \<le> Suc k"
proof (induction k arbitrary: n)
  case 0
  then show ?case by (simp add: base36.simps [of n])
next
  case (Suc k)
  then have "n div 36 < 36 ^ Suc k" by (simp add: div_less_iff_less_mult mult.commute)
  with Suc show ?case by (simp add: base36.simps [of n])
qed

lemma FormatInt36_shape:
  assumes "\<bar>n\<bar> \<le> 2 ^ 63"
  shows "FormatInt36 n \<noteq> [] \<and> dns_char (last (FormatInt36 n)) \<and> list_all (\<lambda>c. dns_char c \<or> c = CHR ''-'') (FormatInt36 n)
    \<and> length (FormatInt36 n) \<le> 14"
proof -
  have "\<bar>n\<bar> < 36 ^ Suc 12" using assms by simp
  then have "length (base36 \<bar>n\<bar>) \<le> Suc 12" by (intro base36_length) simp_all
  with base36_shape [of "\<bar>n\<bar>"] show ?thesis
    by (auto simp: FormatInt36_def list_all_iff abs_if split: if_splits)
qed

section \<open>Time to live\<close>

lemma pow2_pos: "0 < pow2 e"
  by (simp add: pow2_def)

lemma ilog2_bound: "1 \<le> n \<Longrightarrow> n < 2 ^ Suc k \<Longrightarrow> 0 \<le> ilog2 n \<and> ilog2 n \<le> int k"
proof (induction k arbitrary: n)
  case 0
  then show ?case by (simp add: ilog2.simps [of n])
next
  case (Suc k)
  show ?case
  proof (cases "n < 2")
    case False
    with Suc.prems have "1 \<le> n div 2" "n div 2 < 2 ^ Suc k" by auto
    from Suc.IH [OF this] False show ?thesis by (simp add: ilog2.simps [of n])
  qed (simp add: ilog2.simps [of n])
qed

lemma rne_int: "rne (of_int n) = n"
  by (simp add: rne_def)

lemma f64_int:
  assumes "0 \<le> n" and "n < 2 ^ 53"
  shows "f64 (of_int n) = of_int n"
proof (cases "n = 0")
  case False
  define e where "e = flog2 (of_int n) - 52"
  have "flog2 (of_int n) \<le> ilog2 n" by (simp add: flog2_def Let_def ilog2.simps [of 1])
  moreover have "ilog2 n \<le> int 52" using ilog2_bound [of n 52] assms False by simp
  ultimately have "e \<le> 0" by (simp add: e_def)
  then have "of_int n / pow2 e = (of_int (n * 2 ^ nat (- e)) :: rat)" by (cases "e = 0") (simp_all add: pow2_def)
  then have "f64 (of_int n) = of_int (n * 2 ^ nat (- e)) * pow2 e"
    using False assms(1) by (simp add: f64_def e_def [symmetric] Let_def rne_int del: of_int_mult)
  also have "\<dots> = of_int n" using \<open>e \<le> 0\<close> by (cases "e = 0") (simp_all add: pow2_def)
  finally show ?thesis .
qed (simp add: f64_def)

lemma whole_seconds:
  assumes "0 \<le> n" and "n < 2 ^ 31"
  shows "float_int32 conv (dur_Seconds (n * second)) = n"
proof -
  have "go_quot (n * second) second = n" using assms(1) by (cases "n = 0") (simp_all add: go_quot_def abs_mult sgn_mult)
  then have "dur_Seconds (n * second) = f64 (of_int n + f64 0)" by (simp add: dur_Seconds_def Let_def)
  also have "\<dots> = of_int n" using f64_int [of n] assms by (simp add: f64_def [of 0])
  finally show ?thesis using assms by (simp add: float_int32_def Let_def)
qed


section \<open>How the wait ends\<close>

definition job_outcome :: "(string \<Rightarrow> string) \<Rightarrow> string \<Rightarrow> job_obs \<Rightarrow> error option option" where
  "job_outcome uni name ob =
     (case ob of
        JobCtxDone c \<Rightarrow> Some (Some c)
      | JobGetFailed err (Some c) \<Rightarrow> Some (Some c)
      | JobGetFailed err None \<Rightarrow> Some (Some (Wrapf (''get job '' @ go_Quote uni name @ '': '') err))
      | JobStatus succeeded failed \<Rightarrow>
          if 0 < succeeded then Some None
          else if 0 < failed then Some (Some (Errorf (''job '' @ go_Quote uni name @ '' failed'')))
          else None)"

lemma wait_round:
  "waitForJob uni obs e name n =
     (case job_outcome uni name (obs (ku_namespace e) name n) of
        Some r \<Rightarrow> Some r | None \<Rightarrow> waitForJob uni obs e name (Suc n))"
  by (subst waitForJob.simps) (simp add: job_outcome_def split: job_obs.split option.split)

lemma wait_returns:
  "job_outcome uni name (obs (ku_namespace e) name n) \<noteq> None \<Longrightarrow> \<exists>r. waitForJob uni obs e name 0 = Some r"
  by (rule loop_returns [of "waitForJob uni obs e name" "\<lambda>n. job_outcome uni name (obs (ku_namespace e) name n)",
        OF wait_round])

lemma wait_finds:
  "job_outcome uni name (obs (ku_namespace e) name n) = Some r \<Longrightarrow>
   \<forall>m<n. job_outcome uni name (obs (ku_namespace e) name m) = None \<Longrightarrow> waitForJob uni obs e name 0 = Some r"
  using loop_finds [of "waitForJob uni obs e name" "\<lambda>n. job_outcome uni name (obs (ku_namespace e) name n)" 0 n r,
      OF wait_round] by simp

type_synonym 'q kube_run =
  "(string \<Rightarrow> string) \<times> (string \<Rightarrow> 'q option) \<times> (rat \<Rightarrow> int) \<times> ('q k8s_job \<Rightarrow> error + string) \<times> job_watch \<times> go_time \<times> kubernetes"

definition kubernetes_ctx_ends :: "'q kube_run \<Rightarrow> bool" where
  "kubernetes_ctx_ends env = (case env of (uni, parseQ, conv, create, obs, now, e) \<Rightarrow>
     \<forall>name. \<exists>n c err. obs (ku_namespace e) name n = JobCtxDone c \<or> obs (ku_namespace e) name n = JobGetFailed err (Some c))"

definition kubernetes_run_env :: "'q kube_run \<Rightarrow> RunSpec \<Rightarrow> error option option" where
  "kubernetes_run_env env spec = (case env of (uni, parseQ, conv, create, obs, now, e) \<Rightarrow>
     kubernetes_Run uni parseQ conv create obs now e spec)"

interpretation kubernetes: run_executor kubernetes_run_env kubernetes_ctx_ends
proof unfold_locales
  fix env :: "'q kube_run" and spec
  assume ends: "kubernetes_ctx_ends env"
  obtain uni parseQ conv create obs now e where env: "env = (uni, parseQ, conv, create, obs, now, e)" by (rule prod_cases7)
  have "waitForJob uni obs e name 0 \<noteq> None" for name
  proof -
    from ends env obtain n c err where "obs (ku_namespace e) name n = JobCtxDone c
        \<or> obs (ku_namespace e) name n = JobGetFailed err (Some c)"
      unfolding kubernetes_ctx_ends_def by fastforce
    then have "job_outcome uni name (obs (ku_namespace e) name n) \<noteq> None" by (auto simp: job_outcome_def)
    from wait_returns [of uni name obs e n, OF this] show ?thesis by auto
  qed
  then show "kubernetes_run_env env spec \<noteq> None"
    by (simp add: kubernetes_run_env_def env kubernetes_Run_def del: not_None_eq split: sum.split)
qed

section \<open>Adoption\<close>

lemma adopt_jobs_iff:
  "a \<in> set (adopt_jobs jobs) \<longleftrightarrow> (\<exists>job \<in> set jobs. job_Succeeded job \<le> 0 \<and> job_Failed job \<le> 0
     \<and> annotation job annotationPlatform \<noteq> [] \<and> annotation job annotationRepo \<noteq> []
     \<and> a = \<lparr>aj_Repo = \<lparr>repo_Platform = annotation job annotationPlatform, repo_FullName = annotation job annotationRepo\<rparr>,
           aj_jobName = job_Name job\<rparr>)"
  by (induction jobs) (auto simp: Let_def)

lemma buildJob_annotations:
  "annotation (buildJob parseQ conv now e spec) annotationPlatform = repo_Platform (spec_Repo spec)"
  "annotation (buildJob parseQ conv now e spec) annotationRepo = repo_FullName (spec_Repo spec)"
  by (simp_all add: annotation_def buildJob_def Let_def annotationPlatform_def annotationRepo_def annotationReason_def)

text \<open>
  Nothing in the listing tells which executor created a job: two executors of one namespace adopt the
  same jobs.
\<close>

lemma adoption_blind_to_executor:
  "ku_namespace e = ku_namespace e' \<Longrightarrow> kubernetes_AdoptRunning listJobs e = kubernetes_AdoptRunning listJobs e'"
  by (simp add: kubernetes_AdoptRunning_def)

section \<open>Properties\<close>

text \<open>
  C19. Every Job the executor builds has a name that is a DNS label of at most 40 characters, whatever the
  repository is called and for every clock reading that fits 64 bits; its containers neither run as
  root nor gain privileges nor restart, and its time to live is the configured one whenever that is a
  whole number of seconds below 2^31.
\<close>

theorem built_jobs_are_valid:
  assumes "\<bar>now\<bar> \<le> 2 ^ 63" and "ku_jobTTL e = n * second" and "0 \<le> n" and "n < 2 ^ 31"
    and "job = buildJob parseQ conv now e spec"
  shows "dns_label (job_Name job) \<and> length (job_Name job) \<le> 40
    \<and> job_TTLSecondsAfterFinished job = n \<and> job_BackoffLimit job = 0
    \<and> pd_RestartPolicy (job_Template job) = ''Never'' \<and> pd_RunAsNonRoot (job_Template job)
    \<and> list_all (\<lambda>c. \<not> ct_AllowPrivilegeEscalation c) (pd_Containers (job_Template job))"
proof -
  note num = FormatInt36_shape [OF assms(1)]
  have "length (repoHash key) \<le> 16" for key by (simp add: repoHash_def)
  then have len: "length (job_name (repoHash key) now) \<le> 40" for key
    using num add_mono [of "length (repoHash key)" 16 "length (FormatInt36 now)" 14] by (simp add: job_name_def)
  have "list_all (\<lambda>c. dns_char c \<or> c = CHR ''-'') ''renovate-''" "dns_char (CHR ''r'')"
    by (simp_all add: dns_char_def)
  then have "dns_label (job_name (repoHash key) now)" for key
    using len [of key] num dns_hash [of key] by (auto simp: dns_label_def job_name_def list_all_iff)
  with len whole_seconds [OF assms(3,4), of conv] assms(2) show ?thesis
    by (simp add: assms(5) buildJob_def Let_def job_container_def)
qed


definition sample_kube :: kubernetes where
  "sample_kube = \<lparr>ku_name = ''k8s'', ku_namespace = ''renovate'', ku_image = ''renovate/renovate'', ku_cachePVC = ''cache'',
     ku_jobTTL = 3600 * second, ku_env = [(''LOG_LEVEL'', ''debug'')],
     ku_pod = \<lparr>pod_Resources = \<lparr>res_Requests = [(''cpu'', ''1'')], res_Limits = []\<rparr>, pod_NodeSelector = [], pod_Tolerations = [],
       pod_ServiceAccountName = '''', pod_ImagePullSecrets = [], pod_ActiveDeadlineSeconds = 0\<rparr>,
     ku_pollInterval = second\<rparr>"

definition sample_kspec :: RunSpec where
  "sample_kspec = \<lparr>spec_Repo = \<lparr>repo_Platform = ''gl'', repo_FullName = ''g/app''\<rparr>, spec_Reason = ReasonPush\<rparr>"

definition sample_job :: "string k8s_job" where
  "sample_job = buildJob Some (\<lambda>x. 0) 1700000000000000000 sample_kube sample_kspec"

theorem built_jobs_are_valid_witness:
  "dns_label (job_Name sample_job) \<and> length (job_Name sample_job) \<le> 40 \<and> job_TTLSecondsAfterFinished sample_job = 3600"
proof -
  have "\<bar>1700000000000000000\<bar> \<le> (2 ^ 63 :: int)" "ku_jobTTL sample_kube = 3600 * second" "0 \<le> (3600 :: int)" "3600 < (2 ^ 31 :: int)"
    by (simp_all add: sample_kube_def)
  from built_jobs_are_valid [OF this sample_job_def] show ?thesis by blast
qed



end
