(* ===== verification/Program.thy ===== *)
theory Program
  imports Dispatch_Properties Config_Load Server Cron Docker GitLab_CI Kubernetes
begin

text \<open>
  The program (\<open>src/cmd/renovate-server/main.go\<close>): how \<open>run\<close> puts the components together, the
  adoption of in-flight runs and the recovery of queued ones at startup, the cron job, the reload on
  SIGHUP, and the shutdown.
\<close>

section \<open>The logger\<close>

text \<open>
  \<open>slog.Level.UnmarshalText\<close>: a level name in any case, with an optional signed offset. \<open>uni\<close> is
  \<open>strings.ToUpper\<close> on a string that is not ASCII.
\<close>

definition ascii_upper :: "char \<Rightarrow> char" where
  "ascii_upper c = (if 97 \<le> (of_char c :: nat) \<and> (of_char c :: nat) \<le> 122
     then char_of ((of_char c :: nat) - 32) else c)"

definition ToUpper :: "(string \<Rightarrow> string) \<Rightarrow> string \<Rightarrow> string" where
  "ToUpper uni s = (if list_all is_ascii s then map ascii_upper s else uni s)"

definition level_UnmarshalText :: "(string \<Rightarrow> string) \<Rightarrow> string \<Rightarrow> int option" where
  "level_UnmarshalText uni s =
     (let sign = (\<lambda>c. c = CHR ''+'' \<or> c = CHR ''-'');
          name = takeWhile (\<lambda>c. \<not> sign c) s;
          rest = dropWhile (\<lambda>c. \<not> sign c) s
      in case (if rest = [] then Some 0 else ParseInt64 rest) of
           None \<Rightarrow> None
         | Some offset \<Rightarrow>
             (case map_of [(''DEBUG'', -4), (''INFO'', 0), (''WARN'', 4), (''ERROR'', 8)] (ToUpper uni name) of
                None \<Rightarrow> None
              | Some l \<Rightarrow> Some (wrap64 (l + offset))))"

datatype startup_error =
    InvalidLogLevel string
  | InvalidLogFormat string
  | PlatformFailed string string
  | RedisFailed redis_error
  | NotAGitLabPlatform string string
  | ExecutorFailed error
  | ClientFailed string error
  | RouterFailed router_error
  | ScheduleFailed string schedule_error
  | Panics

definition newLogger :: "(string \<Rightarrow> string) \<Rightarrow> LogConfig \<Rightarrow> startup_error + int \<times> string" where
  "newLogger uni cfg =
     (case level_UnmarshalText uni (log_Level cfg) of
        None \<Rightarrow> Inl (InvalidLogLevel (log_Level cfg))
      | Some level \<Rightarrow>
          if log_Format cfg = ''json'' \<or> log_Format cfg = ''text'' then Inr (level, log_Format cfg)
          else Inl (InvalidLogFormat (log_Format cfg)))"

section \<open>The store\<close>

text \<open>The interface value \<open>st\<close>: one of the two stores.\<close>

datatype 'r store_value = SMemory memory | SRedis "'r redisStore"

definition value_ops :: "'r redis \<Rightarrow> 'r store_value store_ops" where
  "value_ops R = \<lparr>
     Queue = (\<lambda>now k r s. case s of SMemory m \<Rightarrow> map_prod id SMemory (memory_Queue now k r m)
        | SRedis t \<Rightarrow> map_prod id SRedis (redis_Queue R now k r t)),
     StartRun = (\<lambda>now k s. case s of SMemory m \<Rightarrow> SMemory (memory_StartRun now k m)
        | SRedis t \<Rightarrow> SRedis (redis_StartRun R now k t)),
     FinishRun = (\<lambda>k s. case s of SMemory m \<Rightarrow> map_prod id SMemory (memory_FinishRun k m)
        | SRedis t \<Rightarrow> map_prod id SRedis (redis_FinishRun R k t)),
     Adopt = (\<lambda>now k r s. case s of SMemory m \<Rightarrow> SMemory (memory_Adopt now k r m)
        | SRedis t \<Rightarrow> SRedis (redis_Adopt R now k r t)),
     Snapshot = (\<lambda>s. case s of SMemory m \<Rightarrow> map_prod id SMemory (memory_Snapshot m)
        | SRedis t \<Rightarrow> map_prod id SRedis (redis_Snapshot R t)),
     SaveRunHandle = (\<lambda>k d s. case s of SMemory m \<Rightarrow> SMemory (memory_SaveRunHandle k d m)
        | SRedis t \<Rightarrow> SRedis (redis_SaveRunHandle R k d t)),
     LoadRunHandles = (\<lambda>s. case s of SMemory m \<Rightarrow> map_prod id SMemory (memory_LoadRunHandles m)
        | SRedis t \<Rightarrow> map_prod id SRedis (redis_LoadRunHandles R t)),
     DeleteRunHandle = (\<lambda>k s. case s of SMemory m \<Rightarrow> SMemory (memory_DeleteRunHandle k m)
        | SRedis t \<Rightarrow> SRedis (redis_DeleteRunHandle R k t))\<rparr>"

section \<open>The services\<close>

text \<open>
  What the program reaches outside itself: the client packages, the Redis server, the cluster, the cron
  package and the time zones, the clock, and the orders in which the maps of handles, of
  statuses and of executors are iterated.
\<close>

record ('r, 'o, 't, 'q) services =
  sv_upper :: "string \<Rightarrow> string"
  sv_gitlabClient :: "string \<Rightarrow> string \<Rightarrow> bool"
  sv_githubClient :: "string \<Rightarrow> string option \<Rightarrow> bool"
  sv_parseURL :: "string \<Rightarrow> 'o option"
  sv_redisClient :: "'o \<Rightarrow> 'r"
  sv_ping :: "'r \<Rightarrow> bool"
  sv_redis :: "'r redis"
  sv_zone :: int
  sv_net :: "net list"
  sv_ci :: "'t ci_env"
  sv_kubeClient :: "error option"
  sv_listJobs :: "string \<Rightarrow> string \<Rightarrow> error + 'q k8s_job list"
  sv_dockerClient :: "error option"
  sv_ident :: "string \<Rightarrow> bool"
  sv_loadLocation :: "string \<Rightarrow> bool"
  sv_addFunc :: "string \<Rightarrow> bool"
  sv_order :: "(string \<rightharpoonup> string) \<Rightarrow> string list"
  sv_keys :: "(string \<rightharpoonup> RepoStatus) \<Rightarrow> string list"
  sv_perm :: "string list \<Rightarrow> string list"
  sv_now :: go_time

section \<open>Platforms, store and executors\<close>

fun open_platforms :: "('r, 'o, 't, 'q) services \<Rightarrow> PlatformConfig list \<Rightarrow> startup_error + adapter list" where
  "open_platforms S [] = Inr []"
| "open_platforms S (pc # pcs) =
     (let cont = (\<lambda>p. case open_platforms S pcs of Inl e \<Rightarrow> Inl e | Inr ps \<Rightarrow> Inr (p # ps)) in
      if pc_Type pc = PlatformGitLab then
        (case gitlab_New (sv_gitlabClient S) pc of
           Inl err \<Rightarrow> Inl (PlatformFailed (pc_Name pc) err) | Inr p \<Rightarrow> cont (AGitLab p))
      else if pc_Type pc = PlatformGitHub then
        (case github_New (sv_githubClient S) pc of
           Inl err \<Rightarrow> Inl (PlatformFailed (pc_Name pc) err) | Inr p \<Rightarrow> cont (AGitHub p))
      else open_platforms S pcs)"

text \<open>The keys of \<open>gitlabPlatforms\<close>.\<close>

definition gitlabPlatforms :: "PlatformConfig list \<Rightarrow> string list" where
  "gitlabPlatforms pcs = map pc_Name (filter (\<lambda>pc. pc_Type pc = PlatformGitLab) pcs)"

definition open_store :: "('r, 'o, 't, 'q) services \<Rightarrow> StoreConfig \<Rightarrow> startup_error + 'r store_value" where
  "open_store S cfg =
     (if store_Type cfg = ''redis'' then
        (case NewRedis (sv_parseURL S) (sv_redisClient S) (sv_ping S) (sv_zone S) (sv_net S) (store_Redis cfg) of
           Inl e \<Rightarrow> Inl (RedisFailed e) | Inr r \<Rightarrow> Inr (SRedis r))
      else Inr (SMemory NewMemory))"

datatype 't exec_impl = ExPipeline "'t gitlabci" | ExKubernetes kubernetes | ExDocker docker | ExNoop noop

fun impl_Name :: "'t exec_impl \<Rightarrow> string" where
  "impl_Name (ExPipeline e) = ci_name e"
| "impl_Name (ExKubernetes e) = ku_name e"
| "impl_Name (ExDocker e) = dk_name e"
| "impl_Name (ExNoop e) = noop_name e"

definition open_executor ::
  "('r, 'o, 't, 'q) services \<Rightarrow> string list \<Rightarrow> ExecutorConfig \<Rightarrow> startup_error + 't exec_impl option" where
  "open_executor S gls ec =
     (if ec_Type ec = ExecutorGitLabPipeline then
        (if ec_Platform ec \<notin> set gls then Inl (NotAGitLabPlatform (ec_Name ec) (ec_Platform ec))
         else case gitlabci_New (sv_ci S) ec of Inl err \<Rightarrow> Inl (ExecutorFailed err) | Inr ex \<Rightarrow> Inr (Some (ExPipeline ex)))
      else if ec_Type ec = ExecutorKubernetes then
        (case sv_kubeClient S of Some err \<Rightarrow> Inl (ClientFailed (ec_Name ec) err)
         | None \<Rightarrow> Inr (Some (ExKubernetes (kubernetes_New ec))))
      else if ec_Type ec = ExecutorDocker then
        (case sv_dockerClient S of Some err \<Rightarrow> Inl (ClientFailed (ec_Name ec) err)
         | None \<Rightarrow> Inr (Some (ExDocker (docker_New ec))))
      else if ec_Type ec = ExecutorNoop then Inr (Some (ExNoop (noop_New ec)))
      else Inr None)"

fun open_executors ::
  "('r, 'o, 't, 'q) services \<Rightarrow> string list \<Rightarrow> ExecutorConfig list \<Rightarrow> (string \<rightharpoonup> 't exec_impl) \<Rightarrow>
   startup_error + (string \<rightharpoonup> 't exec_impl)" where
  "open_executors S gls [] executors = Inr executors"
| "open_executors S gls (ec # ecs) executors =
     (case open_executor S gls ec of
        Inl err \<Rightarrow> Inl err
      | Inr None \<Rightarrow> open_executors S gls ecs executors
      | Inr (Some ex) \<Rightarrow> open_executors S gls ecs (executors(ec_Name ec \<mapsto> ex)))"

text \<open>The executors as the router and the dispatcher see them.\<close>

definition exec_values :: "(string \<rightharpoonup> 't exec_impl) \<Rightarrow> string \<rightharpoonup> executor" where
  "exec_values executors name = map_option (\<lambda>ex. \<lparr>ex_Name = impl_Name ex\<rparr>) (executors name)"

section \<open>Adoption and recovery\<close>

definition adopt_runs :: "'s store_ops \<Rightarrow> string \<Rightarrow> Repo list \<Rightarrow> 's dispatcher \<Rightarrow> 's dispatcher" where
  "adopt_runs ops name found d = foldl (\<lambda>d repo. Adopt_run ops repo name d) d found"

fun adopt_executors ::
  "('r, 'o, 't, 'q) services \<Rightarrow> 's store_ops \<Rightarrow> (string \<rightharpoonup> 't exec_impl) \<Rightarrow> string list \<Rightarrow> 's dispatcher \<Rightarrow> 's dispatcher" where
  "adopt_executors S ops executors [] d = d"
| "adopt_executors S ops executors (name # names) d =
     adopt_executors S ops executors names
       (case executors name of
          Some (ExPipeline ex) \<Rightarrow>
            (case gitlabci_AdoptRunning (sv_ci S) (Some ops) (sv_order S) ex (d_store d) of
               (runs, st) \<Rightarrow> adopt_runs ops name (map ap_Repo runs) (d\<lparr>d_store := st\<rparr>))
        | Some (ExKubernetes ex) \<Rightarrow>
            (case kubernetes_AdoptRunning (sv_listJobs S) ex of
               Inl err \<Rightarrow> d
             | Inr runs \<Rightarrow> adopt_runs ops name (map aj_Repo runs) d)
        | _ \<Rightarrow> d)"

text \<open>\<open>strings.SplitN(key, ":", 2)\<close>: \<^const>\<open>None\<close> when there is only one part.\<close>

definition split_key :: "string \<Rightarrow> (string \<times> string) option" where
  "split_key key = (if CHR '':'' \<in> set key
     then Some (takeWhile (\<lambda>c. c \<noteq> CHR '':'') key, drop 1 (dropWhile (\<lambda>c. c \<noteq> CHR '':'') key)) else None)"

text \<open>A call of \<open>Enqueue\<close> that is not interrupted by other accesses to the store.\<close>

definition Enqueue_now ::
  "'s store_ops \<Rightarrow> (string \<Rightarrow> string \<Rightarrow> bool option) \<Rightarrow> Event \<Rightarrow> 's dispatcher \<Rightarrow> 's dispatcher" where
  "Enqueue_now ops match ev d =
     (let route = Enqueue_route match ev d in
      if route_Disabled route then d
      else case Enqueue_queue ops ev (route_Executor route) d of (new, d) \<Rightarrow> d\<lparr>d_procs := d_procs d @ new\<rparr>)"

fun recover_loop ::
  "'s store_ops \<Rightarrow> (string \<Rightarrow> string \<Rightarrow> bool option) \<Rightarrow> (string \<rightharpoonup> RepoStatus) \<Rightarrow> string list \<Rightarrow> 's dispatcher \<Rightarrow> 's dispatcher" where
  "recover_loop ops match snap [] d = d"
| "recover_loop ops match snap (key # keys) d =
     recover_loop ops match snap keys
       (case snap key of
          None \<Rightarrow> d
        | Some status \<Rightarrow>
            if State status \<noteq> StateQueued then d
            else case split_key key of
                   None \<Rightarrow> d
                 | Some (pf, name) \<Rightarrow>
                     Enqueue_now ops match \<lparr>ev_Repo = \<lparr>repo_Platform = pf, repo_FullName = name\<rparr>, ev_Reason = ReasonRerun\<rparr>
                       (d\<lparr>d_store := snd (FinishRun ops key (d_store d))\<rparr>))"

definition recover ::
  "('r, 'o, 't, 'q) services \<Rightarrow> 's store_ops \<Rightarrow> (string \<Rightarrow> string \<Rightarrow> bool option) \<Rightarrow> 's dispatcher \<Rightarrow> 's dispatcher" where
  "recover S ops match d =
     (case Snapshot ops (d_store d) of (snap, st) \<Rightarrow>
        recover_loop ops match snap (sv_keys S snap) (d\<lparr>d_store := st\<rparr>))"

section \<open>Schedules\<close>

text \<open>The cron job of a platform: one event per discovered repository, none when the discovery fails.\<close>

definition cron_events :: "('x + Repo list) \<Rightarrow> Event list" where
  "cron_events discovered = (case discovered of
     Inl err \<Rightarrow> [] | Inr found \<Rightarrow> map (\<lambda>repo. \<lparr>ev_Repo = repo, ev_Reason = ReasonCron\<rparr>) found)"

fun add_schedules ::
  "('r, 'o, 't, 'q) services \<Rightarrow> adapter list \<Rightarrow> adapter Runner \<Rightarrow> startup_error + adapter Runner" where
  "add_schedules S [] r = Inr r"
| "add_schedules S (p # ps) r =
     (case AddPlatform (sv_loadLocation S) (sv_addFunc S) (adapter_Schedule p) p r of
        Inl err \<Rightarrow> Inl (ScheduleFailed (adapter_Name p) err)
      | Inr r \<Rightarrow> add_schedules S ps r)"

section \<open>Startup\<close>

record ('r, 't) app =
  app_cfg :: Config
  app_level :: int
  app_platforms :: "adapter list"
  app_executors :: "string \<rightharpoonup> 't exec_impl"
  app_disp :: "'r store_value dispatcher"
  app_runner :: "adapter Runner"
  app_server :: server
  app_mux :: "endpoint routes"

definition app_options :: "ServerConfig \<Rightarrow> options" where
  "app_options s = \<lparr>opt_Debounce = srv_Debounce s, opt_RunTimeout = srv_RunTimeout s,
     opt_MaxConcurrent = srv_MaxConcurrentRuns s\<rparr>"

definition start ::
  "('r, 'o, 't, 'q) services \<Rightarrow> (string \<Rightarrow> string \<Rightarrow> bool option) \<Rightarrow> Config \<Rightarrow> startup_error + ('r, 't) app" where
  "start S match cfg =
     (let ops = value_ops (sv_redis S) in
      case newLogger (sv_upper S) (srv_Log (Server cfg)) of Inl e \<Rightarrow> Inl e | Inr (level, format) \<Rightarrow>
      case open_platforms S (Platforms cfg) of Inl e \<Rightarrow> Inl e | Inr platforms \<Rightarrow>
      case open_store S (srv_Store (Server cfg)) of Inl e \<Rightarrow> Inl e | Inr st \<Rightarrow>
      case open_executors S (gitlabPlatforms (Platforms cfg)) (Executors cfg) Map.empty of Inl e \<Rightarrow> Inl e | Inr executors \<Rightarrow>
      case NewRouter (Rules cfg) (exec_values executors) of Inl e \<Rightarrow> Inl (RouterFailed e) | Inr router \<Rightarrow>
      case NewDispatcher st router (app_options (Server cfg)) (Some metrics_New)
             (Some (history_New (srv_HistorySize (Server cfg)))) (sv_now S) of None \<Rightarrow> Inl Panics | Some d \<Rightarrow>
      let d = adopt_executors S ops executors (sv_perm S (map ec_Name (Executors cfg))) d;
          d = (if store_Type (srv_Store (Server cfg)) = ''redis'' then recover S ops match d else d)
      in case add_schedules S platforms schedule_New of Inl e \<Rightarrow> Inl e | Inr runner \<Rightarrow>
      case server_New (sv_ident S) platforms of None \<Rightarrow> Inl Panics | Some (srv, mux) \<Rightarrow>
      Inr \<lparr>app_cfg = cfg, app_level = level, app_platforms = platforms, app_executors = executors, app_disp = d,
           app_runner = runner_Start runner,
           app_server = SetReady True (SetAPIToken (srv_APIToken (Server cfg)) srv), app_mux = mux\<rparr>)"

definition run_startup ::
  "('r, 'o, 't, 'q) services \<Rightarrow> 'e load_env \<Rightarrow> validators \<Rightarrow> (string \<Rightarrow> string \<Rightarrow> bool option) \<Rightarrow> string \<Rightarrow>
   ('e load_error + startup_error) + ('r, 't) app" where
  "run_startup S E V match configPath =
     (case Load E V configPath of Inl e \<Rightarrow> Inl (Inl e) | Inr cfg \<Rightarrow>
        (case start S match cfg of Inl e \<Rightarrow> Inl (Inr e) | Inr a \<Rightarrow> Inr a))"


section \<open>Reload and shutdown\<close>

text \<open>
  \<open>reflect.DeepEqual\<close> on the executor sections: maps are compared by their contents. The schema of this
  development does not tell a nil map or slice from an empty one, except where the defaults do.
\<close>

definition same_map :: "gomap \<Rightarrow> gomap \<Rightarrow> bool" where
  "same_map m m' \<longleftrightarrow> length m = length m' \<and> list_all (\<lambda>(k, v). map_of m' k = Some v) m"

definition same_executor :: "ExecutorConfig \<Rightarrow> ExecutorConfig \<Rightarrow> bool" where
  "same_executor e e' \<longleftrightarrow>
     (let plain = (\<lambda>e. e\<lparr>ec_Variables := [], ec_Inputs := [], ec_Env := [],
            ec_Pod := (ec_Pod e)\<lparr>pod_NodeSelector := [], pod_Resources := \<lparr>res_Requests = [], res_Limits = []\<rparr>\<rparr>\<rparr>)
      in plain e = plain e' \<and> same_map (ec_Variables e) (ec_Variables e') \<and> same_map (ec_Inputs e) (ec_Inputs e')
         \<and> same_map (ec_Env e) (ec_Env e') \<and> same_map (pod_NodeSelector (ec_Pod e)) (pod_NodeSelector (ec_Pod e'))
         \<and> same_map (res_Requests (pod_Resources (ec_Pod e))) (res_Requests (pod_Resources (ec_Pod e')))
         \<and> same_map (res_Limits (pod_Resources (ec_Pod e))) (res_Limits (pod_Resources (ec_Pod e'))))"

definition reload ::
  "('r, 'o, 't, 'q) services \<Rightarrow> 'e load_env \<Rightarrow> validators \<Rightarrow> string \<Rightarrow> ('r, 't) app \<Rightarrow> ('r, 't) app" where
  "reload S E V configPath a =
     (case Load E V configPath of
        Inl err \<Rightarrow> a
      | Inr newCfg \<Rightarrow>
          if Platforms newCfg \<noteq> Platforms (app_cfg a) \<or> \<not> list_all2 same_executor (Executors newCfg) (Executors (app_cfg a)) then a
          else case NewRouter (Rules newCfg) (exec_values (app_executors a)) of
                 Inl err \<Rightarrow> a
               | Inr newRouter \<Rightarrow>
                   a\<lparr>app_disp := SetRouter newRouter (app_disp a),
                     app_level := (case level_UnmarshalText (sv_upper S) (log_Level (srv_Log (Server newCfg))) of
                       None \<Rightarrow> app_level a | Some lvl \<Rightarrow> lvl),
                     app_cfg := (app_cfg a)\<lparr>Rules := Rules newCfg\<rparr>\<rparr>)"

text \<open>The first part of the shutdown, before the wait of \<open>http.Server.Shutdown\<close> and of the dispatcher's \<open>Shutdown\<close>.\<close>

definition begin_shutdown :: "('r, 't) app \<Rightarrow> ('r, 't) app" where
  "begin_shutdown a = a\<lparr>app_server := SetReady False (app_server a), app_runner := fst (runner_Stop (app_runner a))\<rparr>"

section \<open>The store of the program meets the contract\<close>

fun value_view :: "('r \<Rightarrow> string \<Rightarrow> rval option) \<Rightarrow> 'r store_value \<Rightarrow> statuses" where
  "value_view val (SMemory m) = memory_view m"
| "value_view val (SRedis r) = repo_view val r"

fun value_handles :: "('r \<Rightarrow> string \<Rightarrow> rval option) \<Rightarrow> 'r store_value \<Rightarrow> string \<rightharpoonup> string" where
  "value_handles val (SMemory m) = mem_handles m"
| "value_handles val (SRedis r) = handle_view val r"

fun value_inv :: "('r \<Rightarrow> string \<Rightarrow> rval option) \<Rightarrow> int \<Rightarrow> 'r store_value \<Rightarrow> bool" where
  "value_inv val z (SMemory m) = True"
| "value_inv val z (SRedis r) = redis_inv val z r"

sublocale redis_client \<subseteq> vs: store_contract "value_ops R" "value_view val" "value_handles val" "value_inv val z" "redis_clock_ok z"
proof unfold_locales
  note R = redis_ops_def and M = memory_ops_def and V = value_ops_def
  fix s s' :: "'a store_value" and now k r q b d
  show "Queue (value_ops R) now k r s = (q, s') \<Longrightarrow> value_inv val z s \<Longrightarrow> redis_clock_ok z now \<Longrightarrow>
      q = fst (spec_queue now k r (value_view val s)) \<and> value_view val s' = snd (spec_queue now k r (value_view val s))
      \<and> value_handles val s' = value_handles val s \<and> value_inv val z s'"
    using mem.queue_spec [unfolded M] rs.queue_spec [unfolded R] by (cases s) (fastforce simp: V map_prod_def split: prod.splits)+
  show "StartRun (value_ops R) now k s = s' \<Longrightarrow> value_inv val z s \<Longrightarrow> redis_clock_ok z now \<Longrightarrow>
      value_view val s' = spec_start now k (value_view val s) \<and> value_handles val s' = value_handles val s \<and> value_inv val z s'"
    using mem.start_spec [unfolded M] rs.start_spec [unfolded R] by (cases s) (fastforce simp: V)+
  show "FinishRun (value_ops R) k s = (b, s') \<Longrightarrow> value_inv val z s \<Longrightarrow>
      b = fst (spec_finish k (value_view val s)) \<and> value_view val s' = snd (spec_finish k (value_view val s))
      \<and> value_handles val s' = value_handles val s \<and> value_inv val z s'"
    using mem.finish_spec [unfolded M] rs.finish_spec [unfolded R] by (cases s) (fastforce simp: V map_prod_def split: prod.splits)+
  show "Adopt (value_ops R) now k r s = s' \<Longrightarrow> value_inv val z s \<Longrightarrow> redis_clock_ok z now \<Longrightarrow>
      value_view val s' = spec_adopt now k r (value_view val s) \<and> value_handles val s' = value_handles val s \<and> value_inv val z s'"
    using mem.adopt_spec [unfolded M] rs.adopt_spec [unfolded R] by (cases s) (fastforce simp: V)+
  show "value_inv val z s \<Longrightarrow> Snapshot (value_ops R) s = (value_view val s, s)"
    using mem.snapshot_spec [unfolded M] rs.snapshot_spec [unfolded R] by (cases s) (fastforce simp: V)+
  show "SaveRunHandle (value_ops R) k d s = s' \<Longrightarrow> value_inv val z s \<Longrightarrow>
      value_handles val s' = (value_handles val s)(k \<mapsto> d) \<and> value_view val s' = value_view val s \<and> value_inv val z s'"
    using mem.save_spec [unfolded M] rs.save_spec [unfolded R] by (cases s) (fastforce simp: V)+
  show "value_inv val z s \<Longrightarrow> LoadRunHandles (value_ops R) s = (value_handles val s, s)"
    using mem.load_spec [unfolded M] rs.load_spec [unfolded R] by (cases s) (fastforce simp: V)+
  show "DeleteRunHandle (value_ops R) k s = s' \<Longrightarrow> value_inv val z s \<Longrightarrow>
      value_handles val s' = (value_handles val s)(k := None) \<and> value_view val s' = value_view val s \<and> value_inv val z s'"
    using mem.delete_spec [unfolded M] rs.delete_spec [unfolded R] by (cases s) (fastforce simp: V)+
qed


section \<open>When the phases of the startup succeed\<close>

definition client_ok :: "('r, 'o, 't, 'q) services \<Rightarrow> PlatformConfig \<Rightarrow> bool" where
  "client_ok S pc \<longleftrightarrow>
     (if pc_Type pc = PlatformGitLab then sv_gitlabClient S (pc_Token pc) (pc_BaseURL pc)
      else sv_githubClient S (pc_Token pc)
        (if pc_BaseURL pc \<noteq> [] \<and> pc_BaseURL pc \<noteq> ''https://github.com'' then Some (pc_BaseURL pc) else None))"

definition redis_up :: "('r, 'o, 't, 'q) services \<Rightarrow> RedisConfig \<Rightarrow> bool" where
  "redis_up S cfg \<longleftrightarrow> (\<exists>opts. sv_parseURL S (redis_URL cfg) = Some opts \<and> sv_ping S (sv_redisClient S opts))"

definition templates_ok :: "'t ci_env \<Rightarrow> gomap \<Rightarrow> bool" where
  "templates_ok E m \<longleftrightarrow> (\<forall>(k, v) \<in> set m. \<exists>t. Parse E k v = Inr t)"

definition backend_ok :: "('r, 'o, 't, 'q) services \<Rightarrow> ExecutorConfig \<Rightarrow> bool" where
  "backend_ok S ec \<longleftrightarrow>
     (ec_Type ec = ExecutorGitLabPipeline \<longrightarrow> templates_ok (sv_ci S) (ec_Variables ec) \<and> templates_ok (sv_ci S) (ec_Inputs ec))
     \<and> (ec_Type ec = ExecutorKubernetes \<longrightarrow> sv_kubeClient S = None)
     \<and> (ec_Type ec = ExecutorDocker \<longrightarrow> sv_dockerClient S = None)"

lemma newLogger_ok:
  "(\<exists>x. newLogger uni cfg = Inr x) \<longleftrightarrow> level_UnmarshalText uni (log_Level cfg) \<noteq> None \<and> log_Format cfg \<in> {''json'', ''text''}"
  by (auto simp: newLogger_def split: option.splits)

text \<open>What an adapter keeps of its configuration.\<close>

definition adapter_of :: "PlatformConfig \<Rightarrow> adapter \<Rightarrow> bool" where
  "adapter_of pc p \<longleftrightarrow> adapter_Name p = pc_Name pc \<and> adapter_WebhookPath p = wh_Path (pc_Webhook pc)
     \<and> adapter_Schedule p = pc_Schedule pc"

lemma open_platforms_Cons:
  assumes "pc_Type pc \<in> {PlatformGitLab, PlatformGitHub}"
  shows "if client_ok S pc
    then \<exists>p. adapter_of pc p \<and> open_platforms S (pc # pcs) = (case open_platforms S pcs of Inl e \<Rightarrow> Inl e | Inr ps \<Rightarrow> Inr (p # ps))
    else \<exists>e. open_platforms S (pc # pcs) = Inl e"
proof (cases "client_ok S pc")
  case True
  consider g where "pc_Type pc = PlatformGitLab" "gitlab_New (sv_gitlabClient S) pc = Inr g" "adapter_of pc (AGitLab g)"
    | g where "pc_Type pc = PlatformGitHub" "github_New (sv_githubClient S) pc = Inr g" "adapter_of pc (AGitHub g)"
    using assms True by (auto simp: gitlab_New_def github_New_def client_ok_def adapter_of_def Let_def)
  then obtain p where "adapter_of pc p"
      "open_platforms S (pc # pcs) = (case open_platforms S pcs of Inl e \<Rightarrow> Inl e | Inr ps \<Rightarrow> Inr (p # ps))"
    by cases (simp_all add: Let_def)
  with True show ?thesis by auto
next
  case False
  with assms show ?thesis by (auto simp: gitlab_New_def github_New_def client_ok_def Let_def split: if_splits)
qed

lemma open_platforms_ok:
  assumes "\<forall>pc \<in> set pcs. pc_Type pc \<in> {PlatformGitLab, PlatformGitHub}"
  shows "(\<exists>ps. open_platforms S pcs = Inr ps) \<longleftrightarrow> (\<forall>pc \<in> set pcs. client_ok S pc)"
  using assms
proof (induction pcs)
  case (Cons pc pcs)
  with open_platforms_Cons [of pc S pcs] show ?case
    by (cases "client_ok S pc"; cases "open_platforms S pcs") (auto simp del: open_platforms.simps)
qed simp

lemma open_platforms_adapters:
  assumes "\<forall>pc \<in> set pcs. pc_Type pc \<in> {PlatformGitLab, PlatformGitHub}" and "open_platforms S pcs = Inr ps"
  shows "list_all2 adapter_of pcs ps"
  using assms
proof (induction pcs arbitrary: ps)
  case (Cons pc pcs)
  with open_platforms_Cons [of pc S pcs] show ?case
    by (cases "client_ok S pc"; cases "open_platforms S pcs") (auto simp del: open_platforms.simps)
qed simp

lemma open_store_ok:
  "valid_store cfg \<Longrightarrow> (\<exists>st. open_store S cfg = Inr st) \<longleftrightarrow> (store_Type cfg = ''redis'' \<longrightarrow> redis_up S (store_Redis cfg))"
  by (auto simp: open_store_def valid_store_def NewRedis_def redis_up_def Let_def split: sum.splits option.splits if_splits)

lemma parse_templates_ok: "(\<exists>ts. parse_templates E m = Inr ts) \<longleftrightarrow> templates_ok E m"
proof (induction m)
  case (Cons kv m)
  obtain k v where "kv = (k, v)" by fastforce
  with Cons show ?case by (auto simp: templates_ok_def split: sum.splits)
qed (simp add: templates_ok_def)

lemma gitlabci_New_ok:
  "(\<exists>ex. gitlabci_New E cfg = Inr ex) \<longleftrightarrow> templates_ok E (ec_Variables cfg) \<and> templates_ok E (ec_Inputs cfg)"
  unfolding parse_templates_ok [symmetric] by (auto simp: gitlabci_New_def Let_def split: sum.splits)

lemma gitlabci_New_name: "gitlabci_New E cfg = Inr ex \<Longrightarrow> ci_name ex = ec_Name cfg"
  by (auto simp: gitlabci_New_def Let_def split: sum.splits)

lemma open_executor_ok:
  assumes "valid_executor V pcs ec"
  shows "if backend_ok S ec then \<exists>ex. open_executor S (gitlabPlatforms pcs) ec = Inr (Some ex) \<and> impl_Name ex = ec_Name ec
    else \<exists>err. open_executor S (gitlabPlatforms pcs) ec = Inl err"
proof -
  consider (pipeline) "ec_Type ec = ExecutorGitLabPipeline" "ec_Platform ec \<in> set (gitlabPlatforms pcs)"
    | (kube) "ec_Type ec = ExecutorKubernetes" | (docker) "ec_Type ec = ExecutorDocker" | (noop) "ec_Type ec = ExecutorNoop"
    using assms unfolding valid_executor_def gitlabPlatforms_def by force
  then show ?thesis
  proof cases
    case pipeline
    then show ?thesis using gitlabci_New_ok [of "sv_ci S" ec] gitlabci_New_name [of "sv_ci S" ec]
      by (auto simp: open_executor_def backend_ok_def split: sum.splits)
  qed (auto simp: open_executor_def backend_ok_def kubernetes_New_def docker_New_def noop_New_def split: option.split)
qed

text \<open>Every executor is stored under its own name.\<close>

definition names_ok :: "(string \<rightharpoonup> 't exec_impl) \<Rightarrow> bool" where
  "names_ok m \<longleftrightarrow> (\<forall>n ex. m n = Some ex \<longrightarrow> impl_Name ex = n)"

lemma names_ok_upd: "names_ok m \<Longrightarrow> impl_Name ex = n \<Longrightarrow> names_ok (m(n \<mapsto> ex))"
  by (simp add: names_ok_def)

lemma open_executors_ok:
  assumes "\<forall>ec \<in> set ecs. valid_executor V pcs ec"
  shows "(\<exists>m. open_executors S (gitlabPlatforms pcs) ecs m0 = Inr m) \<longleftrightarrow> (\<forall>ec \<in> set ecs. backend_ok S ec)"
  using assms
proof (induction ecs arbitrary: m0)
  case (Cons ec ecs)
  show ?case
  proof (cases "backend_ok S ec")
    case True
    with Cons.prems open_executor_ok [of V pcs ec S] obtain ex
      where "open_executor S (gitlabPlatforms pcs) ec = Inr (Some ex)" by auto
    with True Cons.IH [of "m0(ec_Name ec \<mapsto> ex)"] Cons.prems show ?thesis by (simp del: fun_upd_apply)
  next
    case False
    with Cons.prems open_executor_ok [of V pcs ec S] show ?thesis by auto
  qed
qed simp

lemma open_executors_named:
  assumes "\<forall>ec \<in> set ecs. valid_executor V pcs ec" and "open_executors S (gitlabPlatforms pcs) ecs m0 = Inr m" and "names_ok m0"
  shows "names_ok m \<and> dom m = dom m0 \<union> ec_Name ` set ecs"
  using assms
proof (induction ecs arbitrary: m0)
  case (Cons ec ecs)
  from Cons.prems open_executor_ok [of V pcs ec S] obtain ex
    where ex: "open_executor S (gitlabPlatforms pcs) ec = Inr (Some ex)" "impl_Name ex = ec_Name ec"
    by (auto split: if_splits)
  have "names_ok m \<and> dom m = dom (m0(ec_Name ec \<mapsto> ex)) \<union> ec_Name ` set ecs"
    using Cons.prems ex by (intro Cons.IH names_ok_upd) (auto simp del: fun_upd_apply)
  then show ?case by auto
qed simp

lemma add_schedules_ok:
  assumes "list_all2 adapter_of pcs ps" and "\<forall>pc \<in> set pcs. schedule_ok (sv_loadLocation S) (sv_addFunc S) (pc_Schedule pc)"
  shows "\<exists>r'. add_schedules S ps r = Inr r'"
  using assms
proof (induction arbitrary: r rule: list_all2_induct)
  case (Cons pc pcs p ps)
  then have "\<exists>r1. AddPlatform (sv_loadLocation S) (sv_addFunc S) (adapter_Schedule p) p r = Inr r1"
    by (simp add: AddPlatform_Inr adapter_of_def)
  with Cons show ?case by auto
qed simp


section \<open>Startup of a valid configuration\<close>

lemma NewRouter_from_valid:
  assumes "valid_config V cfg" and "dom m = ec_Name ` set (Executors cfg)"
  shows "\<exists>r. NewRouter (Rules cfg) (exec_values m) = Inr r"
proof -
  have "rule_Disabled rule \<or> exec_values m (rule_Executor rule) \<noteq> None" if "rule \<in> set (Rules cfg)" for rule
    using assms that by (auto simp: valid_config_def valid_rule_def exec_values_def dom_def set_eq_iff image_iff)
  then show ?thesis by (simp add: NewRouter_Inr)
qed

text \<open>The phases in the order of \<open>run\<close>: each has to succeed.\<close>

lemma start_phases:
  "(\<exists>a. start S match cfg = Inr a) \<longleftrightarrow>
     (\<exists>l ps st m r. newLogger (sv_upper S) (srv_Log (Server cfg)) = Inr l \<and> open_platforms S (Platforms cfg) = Inr ps
        \<and> open_store S (srv_Store (Server cfg)) = Inr st
        \<and> open_executors S (gitlabPlatforms (Platforms cfg)) (Executors cfg) Map.empty = Inr m
        \<and> NewRouter (Rules cfg) (exec_values m) = Inr r \<and> 0 \<le> srv_MaxConcurrentRuns (Server cfg)
        \<and> (\<exists>r. add_schedules S ps schedule_New = Inr r) \<and> (\<exists>x. server_New (sv_ident S) ps = Some x))"
proof -
  have disp: "NewDispatcher st r (app_options (Server cfg)) m h now =
      (if 0 \<le> srv_MaxConcurrentRuns (Server cfg)
       then Some \<lparr>d_store = st, d_router = r, d_opts = app_options (Server cfg), d_sem = 0, d_cancelled = False,
                 d_procs = [], d_now = now, d_metrics = m, d_hist = h\<rparr> else None)" for st :: "'a store_value" and r m h now
    by (simp add: NewDispatcher_def app_options_def)
  show ?thesis unfolding start_def disp
    by (cases "newLogger (sv_upper S) (srv_Log (Server cfg))"; cases "open_platforms S (Platforms cfg)";
        cases "open_store S (srv_Store (Server cfg))";
        cases "open_executors S (gitlabPlatforms (Platforms cfg)) (Executors cfg) Map.empty")
      (simp_all add: Let_def split: sum.splits prod.splits option.splits, blast?)
qed

lemma start_ok:
  assumes valid: "valid_config V cfg" and cron: "LoadLocation V = sv_loadLocation S" "ParseStandard V = sv_addFunc S"
  shows "(\<exists>a. start S match cfg = Inr a) \<longleftrightarrow>
     level_UnmarshalText (sv_upper S) (log_Level (srv_Log (Server cfg))) \<noteq> None
     \<and> log_Format (srv_Log (Server cfg)) \<in> {''json'', ''text''}
     \<and> (\<forall>pc \<in> set (Platforms cfg). client_ok S pc)
     \<and> (store_Type (srv_Store (Server cfg)) = ''redis'' \<longrightarrow> redis_up S (store_Redis (srv_Store (Server cfg))))
     \<and> (\<forall>ec \<in> set (Executors cfg). backend_ok S ec)
     \<and> 0 \<le> srv_MaxConcurrentRuns (Server cfg)
     \<and> routes_ok (sv_ident S) (map (\<lambda>pc. wh_Path (pc_Webhook pc)) (Platforms cfg))"
proof -
  have types: "\<forall>pc \<in> set (Platforms cfg). pc_Type pc \<in> {PlatformGitLab, PlatformGitHub}"
    using valid by (auto simp: valid_config_def valid_platform_def)
  have scheds: "\<forall>pc \<in> set (Platforms cfg). schedule_ok (sv_loadLocation S) (sv_addFunc S) (pc_Schedule pc)"
    using valid cron by (auto simp: valid_config_def valid_platform_def schedule_ok_def list_all_iff)
  have execs: "\<forall>ec \<in> set (Executors cfg). valid_executor V (Platforms cfg) ec" "valid_store (srv_Store (Server cfg))"
    using valid by (simp_all add: valid_config_def)
  have router: "\<exists>r. NewRouter (Rules cfg) (exec_values m) = Inr r"
    if "open_executors S (gitlabPlatforms (Platforms cfg)) (Executors cfg) Map.empty = Inr m" for m
    using NewRouter_from_valid [OF valid, of m] open_executors_named [OF execs(1) that] by (simp add: names_ok_def)
  have sched: "\<exists>r. add_schedules S ps schedule_New = Inr r"
    and paths: "map adapter_WebhookPath ps = map (\<lambda>pc. wh_Path (pc_Webhook pc)) (Platforms cfg)"
    if "open_platforms S (Platforms cfg) = Inr ps" for ps
  proof -
    note ps = open_platforms_adapters [OF types that]
    show "\<exists>r. add_schedules S ps schedule_New = Inr r" by (rule add_schedules_ok [OF ps scheds])
    show "map adapter_WebhookPath ps = map (\<lambda>pc. wh_Path (pc_Webhook pc)) (Platforms cfg)"
      using ps by (induction rule: list_all2_induct) (simp_all add: adapter_of_def)
  qed
  have server: "(\<exists>x. server_New (sv_ident S) ps = Some x) \<longleftrightarrow> routes_ok (sv_ident S) (map (\<lambda>pc. wh_Path (pc_Webhook pc)) (Platforms cfg))"
    if "open_platforms S (Platforms cfg) = Inr ps" for ps
    by (simp add: server_New_eq paths [OF that])
  have phases: "(\<exists>a. start S match cfg = Inr a) \<longleftrightarrow>
     (\<exists>l. newLogger (sv_upper S) (srv_Log (Server cfg)) = Inr l)
     \<and> (\<exists>ps. open_platforms S (Platforms cfg) = Inr ps \<and> (\<exists>x. server_New (sv_ident S) ps = Some x))
     \<and> (\<exists>st. open_store S (srv_Store (Server cfg)) = Inr st)
     \<and> (\<exists>m. open_executors S (gitlabPlatforms (Platforms cfg)) (Executors cfg) Map.empty = Inr m)
     \<and> 0 \<le> srv_MaxConcurrentRuns (Server cfg)"
    unfolding start_phases using router sched by blast
  show ?thesis unfolding phases newLogger_ok open_platforms_ok [OF types, symmetric] open_store_ok [OF execs(2)]
      open_executors_ok [OF execs(1)]
    using server by auto
qed


section \<open>Recovery\<close>

lemma split_key_Some: "split_key key = Some (pf, name) \<Longrightarrow> Key \<lparr>repo_Platform = pf, repo_FullName = name\<rparr> = key"
proof -
  assume s: "split_key key = Some (pf, name)"
  then have "CHR '':'' \<in> set key" by (simp add: split_key_def split: if_splits)
  then obtain a b where "key = a @ CHR '':'' # b" "CHR '':'' \<notin> set a" by (meson split_list_first)
  moreover from this have "takeWhile (\<lambda>c. c \<noteq> CHR '':'') key = a" "dropWhile (\<lambda>c. c \<noteq> CHR '':'') key = CHR '':'' # b"
    by (auto simp: takeWhile_append dropWhile_append)
  ultimately show ?thesis using s by (simp add: split_key_def Key_def)
qed

lemma split_key_Key: "CHR '':'' \<notin> set (repo_Platform r) \<Longrightarrow> split_key (Key r) = Some (repo_Platform r, repo_FullName r)"
  by (auto simp: split_key_def Key_def takeWhile_append dropWhile_append)

text \<open>A platform name with a colon is cut at it: the recovered event is for another repository.\<close>

lemma colon_platform_misparsed: "split_key (Key \<lparr>repo_Platform = ''a:b'', repo_FullName = ''n''\<rparr>) = Some (''a'', ''b:n'')"
  by (simp add: split_key_def Key_def)

text \<open>The event that recovery makes of a queued entry, if it makes one.\<close>

definition recovered :: "(string \<rightharpoonup> RepoStatus) \<Rightarrow> string \<Rightarrow> Event option" where
  "recovered snap key =
     (case snap key of
        None \<Rightarrow> None
      | Some st \<Rightarrow> if State st \<noteq> StateQueued then None
                   else map_option (\<lambda>(pf, name). \<lparr>ev_Repo = \<lparr>repo_Platform = pf, repo_FullName = name\<rparr>, ev_Reason = ReasonRerun\<rparr>)
                          (split_key key))"

lemma recovered_Key: "recovered snap key = Some ev \<Longrightarrow> Key (ev_Repo ev) = key \<and> ev_Reason ev = ReasonRerun"
  by (auto simp: recovered_def split_key_Some split: option.splits if_splits)

definition recovered_procs :: "(Event \<Rightarrow> Route) \<Rightarrow> (string \<rightharpoonup> RepoStatus) \<Rightarrow> string list \<Rightarrow> proc list" where
  "recovered_procs route snap keys = concat (map (\<lambda>k. case recovered snap k of None \<Rightarrow> []
     | Some ev \<Rightarrow> if route_Disabled (route ev) then [] else [Spawned ev (route_Executor (route ev))]) keys)"

context dispatch_store
begin

lemma Enqueue_now_fresh:
  assumes "invar (d_store d)" and "clock_ok (d_now d)" and "view (d_store d) (Key (ev_Repo ev)) = None"
  shows "\<exists>s. Enqueue_now ops match ev d = (if route_Disabled (Enqueue_route match ev d) then d
      else d\<lparr>d_store := s, d_procs := d_procs d @ [Spawned ev (route_Executor (Enqueue_route match ev d))]\<rparr>)
    \<and> invar s \<and> view s = (view (d_store d))(Key (ev_Repo ev) \<mapsto>
        \<lparr>State = StateQueued, Reason = ev_Reason ev, Since = d_now d, PendingRerun = False\<rparr>)"
proof -
  obtain q s where q: "Queue ops (d_now d) (Key (ev_Repo ev)) (ev_Reason ev) (d_store d) = (q, s)" by fastforce
  from queue_spec [OF assms(1,2) q] assms(3) have "q = Queued" "invar s" "view s = (view (d_store d))(Key (ev_Repo ev) \<mapsto>
        \<lparr>State = StateQueued, Reason = ev_Reason ev, Since = d_now d, PendingRerun = False\<rparr>)"
    by (simp_all add: spec_queue_def)
  with q show ?thesis by (intro exI [of _ s]) (simp add: Enqueue_now_def Enqueue_queue_def Let_def)
qed

lemma recover_step:
  assumes "invar (d_store d)" and "clock_ok (d_now d)" and "recovered snap key = Some ev"
  defines "d1 \<equiv> d\<lparr>d_store := snd (FinishRun ops key (d_store d))\<rparr>"
  shows "\<exists>s. Enqueue_now ops match ev d1
      = d\<lparr>d_store := s, d_procs := d_procs d @ recovered_procs (\<lambda>ev. Route_of match (d_router d) (repo_FullName (ev_Repo ev))) snap [key]\<rparr>
    \<and> invar s \<and> view s = (view (d_store d))(key := if route_Disabled (Route_of match (d_router d) (repo_FullName (ev_Repo ev))) then None
        else Some \<lparr>State = StateQueued, Reason = ReasonRerun, Since = d_now d, PendingRerun = False\<rparr>)"
proof -
  have fin: "view (d_store d1) = (view (d_store d))(key := None)" "invar (d_store d1)"
    using finish_spec [OF assms(1), of key] by (cases "FinishRun ops key (d_store d)"; simp add: d1_def spec_finish_def)+
  have d1: "clock_ok (d_now d1)" "d_router d1 = d_router d" "d_procs d1 = d_procs d" using assms(2) by (simp_all add: d1_def)
  note key = recovered_Key [OF assms(3)]
  have route: "Enqueue_route match ev d1 = Route_of match (d_router d) (repo_FullName (ev_Repo ev))"
    by (simp add: Enqueue_route_def d1)
  obtain s where s: "Enqueue_now ops match ev d1 = (if route_Disabled (Enqueue_route match ev d1) then d1
      else d1\<lparr>d_store := s, d_procs := d_procs d1 @ [Spawned ev (route_Executor (Enqueue_route match ev d1))]\<rparr>)"
    "invar s" "view s = (view (d_store d1))(Key (ev_Repo ev) \<mapsto>
        \<lparr>State = StateQueued, Reason = ev_Reason ev, Since = d_now d1, PendingRerun = False\<rparr>)"
    using Enqueue_now_fresh [OF fin(2) d1(1), of ev] fin(1) key by auto
  show ?thesis
  proof (cases "route_Disabled (Route_of match (d_router d) (repo_FullName (ev_Repo ev)))")
    case True
    with s(1) have "Enqueue_now ops match ev d1 = d1" by (simp only: route if_True)
    moreover have "d1 = d\<lparr>d_store := d_store d1, d_procs := d_procs d @ recovered_procs
        (\<lambda>ev. Route_of match (d_router d) (repo_FullName (ev_Repo ev))) snap [key]\<rparr>"
      using True assms(3) by (simp add: d1_def recovered_procs_def)
    ultimately show ?thesis using True fin by (intro exI [of _ "d_store d1"]) simp
  next
    case False
    with s(1) have "Enqueue_now ops match ev d1 = d1\<lparr>d_store := s, d_procs := d_procs d1
        @ [Spawned ev (route_Executor (Route_of match (d_router d) (repo_FullName (ev_Repo ev))))]\<rparr>"
      by (simp only: route if_False)
    with False s(2,3) fin assms(3) key show ?thesis
      by (intro exI [of _ s]) (simp add: recovered_procs_def d1_def)
  qed
qed

end


text \<open>The state of the store after recovery: recovered entries are requeued or dropped, all others stay.\<close>

definition recovered_view :: "(Event \<Rightarrow> Route) \<Rightarrow> go_time \<Rightarrow> (string \<rightharpoonup> RepoStatus) \<Rightarrow> string list \<Rightarrow> statuses \<Rightarrow> statuses" where
  "recovered_view route now snap keys v k =
     (case recovered snap k of
        Some ev \<Rightarrow> if k \<notin> set keys then v k
          else if route_Disabled (route ev) then None
          else Some \<lparr>State = StateQueued, Reason = ReasonRerun, Since = now, PendingRerun = False\<rparr>
      | None \<Rightarrow> v k)"

lemma recovered_procs_Cons:
  "recovered_procs route snap (key # keys) = recovered_procs route snap [key] @ recovered_procs route snap keys"
  by (simp add: recovered_procs_def)

context dispatch_store
begin

lemma recover_loop_effect:
  assumes "invar (d_store d)" and "clock_ok (d_now d)" and "distinct keys"
  defines "route \<equiv> \<lambda>ev. Route_of match (d_router d) (repo_FullName (ev_Repo ev))"
  shows "\<exists>s. recover_loop ops match snap keys d = d\<lparr>d_store := s, d_procs := d_procs d @ recovered_procs route snap keys\<rparr>
    \<and> invar s \<and> view s = recovered_view route (d_now d) snap keys (view (d_store d))"
  using assms(1-3) unfolding route_def
proof (induction keys arbitrary: d)
  case Nil
  then show ?case by (intro exI [of _ "d_store d"])
    (simp add: recovered_procs_def recovered_view_def fun_eq_iff split: option.split)
next
  case (Cons key keys)
  let ?route = "\<lambda>ev. Route_of match (d_router d) (repo_FullName (ev_Repo ev))"
  show ?case
  proof (cases "recovered snap key")
    case None
    then have "recover_loop ops match snap (key # keys) d = recover_loop ops match snap keys d"
      "recovered_procs ?route snap (key # keys) = recovered_procs ?route snap keys"
      "recovered_view ?route (d_now d) snap (key # keys) v = recovered_view ?route (d_now d) snap keys v" for v
      by (auto simp: recovered_def recovered_procs_def recovered_view_def fun_eq_iff split: option.splits if_splits)
    with Cons show ?thesis by simp
  next
    case (Some ev)
    from recover_step [OF Cons.prems(1,2) Some] obtain s where
      s: "Enqueue_now ops match ev (d\<lparr>d_store := snd (FinishRun ops key (d_store d))\<rparr>)
          = d\<lparr>d_store := s, d_procs := d_procs d @ recovered_procs ?route snap [key]\<rparr>" "invar s"
        "view s = (view (d_store d))(key := if route_Disabled (?route ev) then None
          else Some \<lparr>State = StateQueued, Reason = ReasonRerun, Since = d_now d, PendingRerun = False\<rparr>)" by blast
    let ?d = "d\<lparr>d_store := s, d_procs := d_procs d @ recovered_procs ?route snap [key]\<rparr>"
    have "recover_loop ops match snap (key # keys) d = recover_loop ops match snap keys ?d"
      using Some s(1) by (auto simp: recovered_def split: option.splits if_splits)
    moreover obtain s' where "recover_loop ops match snap keys ?d
        = ?d\<lparr>d_store := s', d_procs := d_procs ?d @ recovered_procs ?route snap keys\<rparr>" "invar s'"
      "view s' = recovered_view ?route (d_now d) snap keys (view s)"
      using Cons.IH [of ?d] Cons.prems s(2) by auto
    moreover have "recovered_view ?route (d_now d) snap keys (view s)
        = recovered_view ?route (d_now d) snap (key # keys) (view (d_store d))"
      using Some s(3) Cons.prems(3) by (auto simp: recovered_view_def fun_eq_iff split: option.split)
    ultimately show ?thesis by (intro exI [of _ s']) (simp add: recovered_procs_Cons [of _ _ key keys])
  qed
qed

end

section \<open>The router in force\<close>

lemma Adopt_run_router: "d_router (Adopt_run ops repo name d) = d_router d"
  by (simp add: Adopt_run_def)

lemma adopt_runs_router: "d_router (adopt_runs ops name found d) = d_router d"
  unfolding adopt_runs_def by (induction found arbitrary: d) (simp_all add: Adopt_run_router)

lemma adopt_executors_router: "d_router (adopt_executors S ops executors names d) = d_router d"
  by (induction names arbitrary: d) (auto simp: adopt_runs_router split: option.split exec_impl.split sum.split prod.split)

lemma Enqueue_now_router: "d_router (Enqueue_now ops match ev d) = d_router d"
  by (simp add: Enqueue_now_def Enqueue_queue_def Let_def split: prod.split QueueResult.split)

lemma recover_loop_router: "d_router (recover_loop ops match snap keys d) = d_router d"
  by (induction keys arbitrary: d) (auto simp: Enqueue_now_router split: option.split)

lemma recover_router: "d_router (recover S ops match d) = d_router d"
  by (simp add: recover_def recover_loop_router split: prod.split)

lemmas router_frames = adopt_executors_router recover_router

text \<open>
  The invariant of the running program: the configuration in force is valid, the executors are those of
  its sections, and the router in force is the one its rules describe.
\<close>

definition app_wf :: "validators \<Rightarrow> ('r, 't) app \<Rightarrow> bool" where
  "app_wf V a \<longleftrightarrow> valid_config V (app_cfg a) \<and> dom (app_executors a) = ec_Name ` set (Executors (app_cfg a))
     \<and> NewRouter (Rules (app_cfg a)) (exec_values (app_executors a)) = Inr (d_router (app_disp a))"

lemma start_wf:
  assumes "valid_config V cfg" and "start S match cfg = Inr a"
  shows "app_wf V a \<and> app_cfg a = cfg"
proof -
  from assms(2) obtain m r d where
    m: "open_executors S (gitlabPlatforms (Platforms cfg)) (Executors cfg) Map.empty = Inr m"
    and r: "NewRouter (Rules cfg) (exec_values m) = Inr r" and a: "app_cfg a = cfg" "app_executors a = m" "d_router (app_disp a) = r"
    by (auto simp: start_def Let_def router_frames NewDispatcher_def split: sum.splits prod.splits option.splits if_splits)
  have "dom m = ec_Name ` set (Executors cfg)"
    using open_executors_named [OF _ m, of V] assms(1) by (simp add: valid_config_def names_ok_def)
  with assms(1) r a show ?thesis by (simp add: app_wf_def)
qed

lemma same_executor_name: "same_executor e e' \<Longrightarrow> ec_Name e = ec_Name e'"
proof -
  assume "same_executor e e'"
  then have "ec_Name (e\<lparr>ec_Variables := [], ec_Inputs := [], ec_Env := [],
        ec_Pod := (ec_Pod e)\<lparr>pod_NodeSelector := [], pod_Resources := \<lparr>res_Requests = [], res_Limits = []\<rparr>\<rparr>\<rparr>)
      = ec_Name (e'\<lparr>ec_Variables := [], ec_Inputs := [], ec_Env := [],
        ec_Pod := (ec_Pod e')\<lparr>pod_NodeSelector := [], pod_Resources := \<lparr>res_Requests = [], res_Limits = []\<rparr>\<rparr>\<rparr>)"
    unfolding same_executor_def Let_def by metis
  then show ?thesis by simp
qed

lemma same_executors_names: "list_all2 same_executor es es' \<Longrightarrow> ec_Name ` set es = ec_Name ` set es'"
  by (induction rule: list_all2_induct) (auto dest: same_executor_name)

lemma Load_valid: "Load E V path = Inr cfg \<Longrightarrow> valid_config V cfg"
  by (auto simp: Load_def Let_def validate_iff [symmetric] split: sum.splits prod.splits if_splits option.splits)

lemma reload_accepts:
  assumes "app_wf V a" and "Load E V path = Inr c"
    and "Platforms c = Platforms (app_cfg a)" and "list_all2 same_executor (Executors c) (Executors (app_cfg a))"
  shows "\<exists>r lvl. NewRouter (Rules c) (exec_values (app_executors a)) = Inr r
    \<and> reload S E V path a = a\<lparr>app_disp := SetRouter r (app_disp a), app_level := lvl, app_cfg := (app_cfg a)\<lparr>Rules := Rules c\<rparr>\<rparr>"
proof -
  have "dom (app_executors a) = ec_Name ` set (Executors c)"
    using assms(1) same_executors_names [OF assms(4)] by (simp add: app_wf_def)
  then obtain r where r: "NewRouter (Rules c) (exec_values (app_executors a)) = Inr r"
    using NewRouter_from_valid [OF Load_valid [OF assms(2)], of "app_executors a"] by blast
  with assms(2-4) show ?thesis by (auto simp: reload_def)
qed

lemma reload_cases:
  "reload S E V path a = a \<or> (\<exists>c. Load E V path = Inr c \<and> Platforms c = Platforms (app_cfg a)
     \<and> list_all2 same_executor (Executors c) (Executors (app_cfg a)))"
  by (auto simp: reload_def split: sum.splits if_splits)

lemma reload_wf:
  assumes "app_wf V a"
  shows "app_wf V (reload S E V path a)"
proof (cases "\<exists>c. Load E V path = Inr c \<and> Platforms c = Platforms (app_cfg a)
     \<and> list_all2 same_executor (Executors c) (Executors (app_cfg a))")
  case True
  then obtain c where c: "Load E V path = Inr c" "Platforms c = Platforms (app_cfg a)"
    "list_all2 same_executor (Executors c) (Executors (app_cfg a))" by blast
  from reload_accepts [OF assms c] obtain r lvl where
    r: "NewRouter (Rules c) (exec_values (app_executors a)) = Inr r"
      "reload S E V path a = a\<lparr>app_disp := SetRouter r (app_disp a), app_level := lvl, app_cfg := (app_cfg a)\<lparr>Rules := Rules c\<rparr>\<rparr>"
    by blast
  have "valid_config V ((app_cfg a)\<lparr>Rules := Rules c\<rparr>)"
    using assms Load_valid [OF c(1)] same_executors_names [OF c(3)] by (auto simp: valid_config_def app_wf_def)
  with assms r show ?thesis by (simp add: app_wf_def SetRouter_def)
next
  case False
  with reload_cases [of S E V path a] assms show ?thesis by auto
qed


text \<open>What reloads may change: the router, the rules and the log level of the program that was started.\<close>

definition reload_frame :: "('r, 't) app \<Rightarrow> ('r, 't) app \<Rightarrow> ('r, 't) app" where
  "reload_frame a0 a = a0\<lparr>app_disp := SetRouter (d_router (app_disp a)) (app_disp a0), app_level := app_level a,
     app_cfg := (app_cfg a0)\<lparr>Rules := Rules (app_cfg a)\<rparr>\<rparr>"

lemma reload_frame_self: "reload_frame a a = a"
  by (simp add: reload_frame_def SetRouter_def)

lemma reload_frame_upd:
  "(reload_frame a0 a)\<lparr>app_disp := SetRouter r (app_disp (reload_frame a0 a)), app_level := lvl,
      app_cfg := (app_cfg (reload_frame a0 a))\<lparr>Rules := R\<rparr>\<rparr>
   = reload_frame a0 (a\<lparr>app_disp := SetRouter r (app_disp a), app_level := lvl, app_cfg := (app_cfg a)\<lparr>Rules := R\<rparr>\<rparr>)"
  by (simp add: reload_frame_def SetRouter_def)

lemma reload_keeps_frame:
  assumes "app_wf V a" and "reload_frame a0 a = a"
  shows "reload_frame a0 (reload S E V path a) = reload S E V path a"
  using reload_cases [of S E V path a]
proof
  assume "\<exists>c. Load E V path = Inr c \<and> Platforms c = Platforms (app_cfg a)
    \<and> list_all2 same_executor (Executors c) (Executors (app_cfg a))"
  then obtain c where c: "Load E V path = Inr c" "Platforms c = Platforms (app_cfg a)"
    "list_all2 same_executor (Executors c) (Executors (app_cfg a))" by blast
  from reload_accepts [OF assms(1) c, of S] obtain r lvl where
    r: "reload S E V path a = a\<lparr>app_disp := SetRouter r (app_disp a), app_level := lvl, app_cfg := (app_cfg a)\<lparr>Rules := Rules c\<rparr>\<rparr>"
    by blast
  show ?thesis unfolding r reload_frame_upd [symmetric] assms(2) by (rule refl)
qed (simp add: assms(2))

lemma reloads_keep:
  "app_wf V a \<Longrightarrow> reload_frame a0 a = a \<Longrightarrow>
   app_wf V (foldl (\<lambda>a E. reload S E V path a) a Es)
   \<and> reload_frame a0 (foldl (\<lambda>a E. reload S E V path a) a Es) = foldl (\<lambda>a E. reload S E V path a) a Es"
  by (induction Es arbitrary: a) (simp_all add: reload_wf reload_keeps_frame)

end
