(* ===== verification/Lifecycle.thy ===== *)
theory Lifecycle
  imports Program
begin

text \<open>
  The life of the program (\<open>src/cmd/renovate-server/main.go\<close>, \<open>run\<close>) from its startup to its end: the
  goroutines of the dispatcher, the HTTP handlers, the cron jobs, the reloads and the shutdown as steps
  of one relation, and what holds in every state.
\<close>

section \<open>What the startup adopts\<close>

text \<open>The repositories of the runs that the executors report, in the order in which they are adopted.\<close>

fun adoptions ::
  "('r, 'o, 't, 'q) services \<Rightarrow> 's store_ops \<Rightarrow> (string \<rightharpoonup> 't exec_impl) \<Rightarrow> string list \<Rightarrow> 's dispatcher \<Rightarrow> Repo list" where
  "adoptions S ops executors [] d = []"
| "adoptions S ops executors (name # names) d =
     (case executors name of
        Some (ExPipeline ex) \<Rightarrow>
          (case gitlabci_AdoptRunning (sv_ci S) (Some ops) (sv_order S) ex (d_store d) of
             (runs, st) \<Rightarrow> map ap_Repo runs @ adoptions S ops executors names
                (adopt_runs ops name (map ap_Repo runs) (d\<lparr>d_store := st\<rparr>)))
      | Some (ExKubernetes ex) \<Rightarrow>
          (case kubernetes_AdoptRunning (sv_listJobs S) ex of
             Inl err \<Rightarrow> adoptions S ops executors names d
           | Inr runs \<Rightarrow> map aj_Repo runs @ adoptions S ops executors names (adopt_runs ops name (map aj_Repo runs) d))
      | _ \<Rightarrow> adoptions S ops executors names d)"

context dispatch_store
begin

text \<open>A repository can be adopted when no goroutine owns it and the store does not show it as queued.\<close>

definition adoptable :: "'s dispatcher \<Rightarrow> Repo \<Rightarrow> bool" where
  "adoptable d repo \<longleftrightarrow> countP (lock_on (Key repo)) (locks d) = 0
     \<and> (case view (d_store d) (Key repo) of None \<Rightarrow> True | Some st \<Rightarrow> State st = StateRunning)"

definition running_only :: "'s dispatcher \<Rightarrow> bool" where
  "running_only d \<longleftrightarrow> (\<forall>l \<in> set (locks d). \<exists>k. l = LRunning k)"

lemma adoptable_ok: "dinv stale d \<Longrightarrow> adoptable d repo \<Longrightarrow> adopt_ok ops repo d"
  by (auto simp: adoptable_def adopt_ok_def dinv_def snapshot_spec countP_zero_iff list_all_length)

lemma adoptable_other:
  assumes "dinv stale d" and "adoptable d repo'" and "Key repo' \<noteq> Key repo"
  shows "adoptable (Adopt_run ops repo name d) repo'"
  using assms adopt_spec [of "d_store d" "d_now d" "Key repo" ReasonRerun]
  by (auto simp: adoptable_def dinv_def Adopt_run_def spec_adopt_def count_simps split: option.splits)

lemma adopt_runs_dinv:
  assumes "dinv stale d" and "running_only d" and "distinct (map Key (found @ rest))"
    and "\<forall>repo \<in> set (found @ rest). adoptable d repo"
  shows "dinv stale (adopt_runs ops name found d) \<and> running_only (adopt_runs ops name found d)
    \<and> (\<forall>repo \<in> set rest. adoptable (adopt_runs ops name found d) repo)"
  using assms
proof (induction found arbitrary: d)
  case Nil
  then show ?case by (simp add: adopt_runs_def)
next
  case (Cons repo found)
  let ?d = "Adopt_run ops repo name d"
  have "adoptable d repo" using Cons.prems(4) by simp
  then have "dinv stale ?d" using dinv_adopt [OF Cons.prems(1) adoptable_ok [OF Cons.prems(1)]] by blast
  moreover have "running_only ?d" using Cons.prems(2) by (auto simp: running_only_def Adopt_run_def)
  moreover have "\<forall>repo' \<in> set (found @ rest). adoptable ?d repo'"
    using Cons.prems(3,4) adoptable_other [OF Cons.prems(1)] by (metis (no_types, lifting) append_Cons
      distinct.simps(2) image_eqI list.set_intros(2) list.set_map list.simps(9))
  ultimately show ?case using Cons.IH [of ?d] Cons.prems(3) by (simp add: adopt_runs_def)
qed

lemma dinv_store:
  assumes "dinv stale d" and "invar st" and "view st = view (d_store d)"
  shows "dinv stale (d\<lparr>d_store := st\<rparr>)"
  using assms by (auto simp: dinv_def token_inv_def safe_inv_def)

lemma adopt_executors_dinv:
  assumes "dinv stale d" and "running_only d" and "distinct (map Key (adoptions S ops executors names d))"
    and "\<forall>repo \<in> set (adoptions S ops executors names d). adoptable d repo"
  shows "dinv stale (adopt_executors S ops executors names d) \<and> running_only (adopt_executors S ops executors names d)"
  using assms
proof (induction names arbitrary: d)
  case Nil
  then show ?case by simp
next
  case (Cons name names)
  show ?case
  proof (cases "executors name")
    case None
    with Cons show ?thesis by simp
  next
    case (Some ex)
    show ?thesis
    proof (cases ex)
      case (ExPipeline e)
      obtain runs st where r: "gitlabci_AdoptRunning (sv_ci S) (Some ops) (sv_order S) e (d_store d) = (runs, st)" by fastforce
      have inv: "invar (d_store d)" using Cons.prems(1) by (simp add: dinv_def)
      have "adopt_loop (sv_ci S) ops e (handles (d_store d)) (sv_order S (handles (d_store d))) [] (d_store d) = (runs, st)"
        using r load_spec [OF inv] by (simp add: gitlabci_AdoptRunning_def)
      from adopt_loop_effect [OF inv this] have st: "invar st" "view st = view (d_store d)" by blast+
      let ?d = "d\<lparr>d_store := st\<rparr>" and ?found = "map ap_Repo runs"
      let ?rest = "adoptions S ops executors names (adopt_runs ops name ?found ?d)"
      have "\<forall>repo \<in> set (?found @ ?rest). adoptable ?d repo" "distinct (map Key (?found @ ?rest))" "running_only ?d"
        using Cons.prems(2-4) Some ExPipeline r st(2) by (simp_all add: adoptable_def running_only_def)
      from adopt_runs_dinv [OF dinv_store [OF Cons.prems(1) st] this(3,2,1), of name] Cons.IH Cons.prems(3)
      show ?thesis by (simp add: Some ExPipeline r)
    next
      case (ExKubernetes e)
      show ?thesis
      proof (cases "kubernetes_AdoptRunning (sv_listJobs S) e")
        case (Inl err)
        with Cons Some ExKubernetes show ?thesis by simp
      next
        case (Inr runs)
        let ?found = "map aj_Repo runs"
        let ?rest = "adoptions S ops executors names (adopt_runs ops name ?found d)"
        have "\<forall>repo \<in> set (?found @ ?rest). adoptable d repo" "distinct (map Key (?found @ ?rest))"
          using Cons.prems(3,4) Some ExKubernetes Inr by simp_all
        from adopt_runs_dinv [OF Cons.prems(1,2) this(2,1), of name] Cons.IH Cons.prems(3)
        show ?thesis by (simp add: Some ExKubernetes Inr)
      qed
    next
      case (ExDocker e)
      with Cons Some show ?thesis by simp
    next
      case (ExNoop e)
      with Cons Some show ?thesis by simp
    qed
  qed
qed

end

section \<open>Recovery\<close>

lemma lock_inv_clear:
  assumes "lock_inv v stale ls" and "countP (lock_on k) ls = 0"
  shows "lock_inv (v(k := None)) stale ls"
  using assms lock_ok_other [of v _ k "v(k := None)"]
  by (auto simp: lock_inv_def countP_zero_iff)

context dispatch_store
begin

lemma recover_step_dinv:
  assumes inv: "dinv stale d" and free: "countP (lock_on key) (locks d) = 0" and ev: "recovered snap key = Some ev"
  defines "d1 \<equiv> d\<lparr>d_store := snd (FinishRun ops key (d_store d))\<rparr>"
  shows "dinv stale (Enqueue_now ops match ev d1)
    \<and> (\<forall>k. k \<noteq> key \<longrightarrow> countP (lock_on k) (locks (Enqueue_now ops match ev d1)) = countP (lock_on k) (locks d))"
proof -
  let ?route = "\<lambda>ev. Route_of match (d_router d) (repo_FullName (ev_Repo ev))"
  have b: "invar (d_store d)" "clock_ok (d_now d)" "lock_inv (view (d_store d)) stale (locks d)" "router_wf (d_router d)"
    using inv by (simp_all add: dinv_def safe_inv_def)
  note key = recovered_Key [OF ev]
  obtain s where s: "Enqueue_now ops match ev d1 = d\<lparr>d_store := s, d_procs := d_procs d @ recovered_procs ?route snap [key]\<rparr>"
      "invar s" "view s = (view (d_store d))(key := if route_Disabled (?route ev) then None
        else Some \<lparr>State = StateQueued, Reason = ReasonRerun, Since = d_now d, PendingRerun = False\<rparr>)"
    using recover_step [OF b(1,2) ev] unfolding d1_def by blast
  show ?thesis
  proof (cases "route_Disabled (?route ev)")
    case True
    with s ev have "Enqueue_now ops match ev d1 = d\<lparr>d_store := s\<rparr>" "view s = (view (d_store d))(key := None)"
      by (simp_all add: recovered_procs_def)
    with lock_inv_clear [OF b(3) free] inv s(2) show ?thesis by (auto simp: dinv_def token_inv_def safe_inv_def)
  next
    case False
    then have ex: "route_Executor (?route ev) \<noteq> None" using Route_wf [OF b(4)] by blast
    from False s ev have e: "Enqueue_now ops match ev d1 = d\<lparr>d_store := s, d_procs := d_procs d @ [Spawned ev (route_Executor (?route ev))]\<rparr>"
      "view s = (view (d_store d))(key \<mapsto> \<lparr>State = StateQueued, Reason = ReasonRerun, Since = d_now d, PendingRerun = False\<rparr>)"
      by (simp_all add: recovered_procs_def)
    have "lock_inv (view s) stale (locks d @ [LQueued key])"
      unfolding e(2) by (rule lock_inv_take [OF b(3) free]) simp_all
    with inv s(2) ex e(1) key show ?thesis by (auto simp: dinv_def token_inv_def safe_inv_def count_simps)
  qed
qed

lemma recover_loop_dinv:
  assumes "dinv stale d" and "distinct keys"
    and "\<forall>k \<in> set keys. recovered snap k \<noteq> None \<longrightarrow> countP (lock_on k) (locks d) = 0"
  shows "dinv stale (recover_loop ops match snap keys d)"
  using assms
proof (induction keys arbitrary: d)
  case (Cons key keys)
  show ?case
  proof (cases "recovered snap key")
    case None
    then have "recover_loop ops match snap (key # keys) d = recover_loop ops match snap keys d"
      by (auto simp: recovered_def split: option.splits if_splits)
    with Cons show ?thesis by simp
  next
    case (Some ev)
    let ?d = "Enqueue_now ops match ev (d\<lparr>d_store := snd (FinishRun ops key (d_store d))\<rparr>)"
    have "recover_loop ops match snap (key # keys) d = recover_loop ops match snap keys ?d"
      using Some by (auto simp: recovered_def split: option.splits if_splits)
    moreover have "countP (lock_on key) (locks d) = 0" using Cons.prems(3) Some by simp
    note step = recover_step_dinv [OF Cons.prems(1) this Some]
    have "\<forall>k \<in> set keys. recovered snap k \<noteq> None \<longrightarrow> countP (lock_on k) (locks ?d) = 0"
      using step Cons.prems(2,3) by (metis distinct.simps(2) list.set_intros(2))
    with step Cons.IH [of ?d] Cons.prems(2) have "dinv stale (recover_loop ops match snap keys ?d)" by simp
    ultimately show ?thesis by simp
  qed
qed simp

lemma recover_dinv:
  assumes inv: "dinv stale d" and only: "running_only d" and keys: "distinct (sv_keys S (view (d_store d)))"
  shows "dinv stale (recover S ops match d)"
proof -
  have b: "invar (d_store d)" "lock_inv (view (d_store d)) stale (locks d)" using inv by (simp_all add: dinv_def)
  have "countP (lock_on k) (locks d) = 0" if "recovered (view (d_store d)) k = Some ev" for k ev
  proof -
    from that obtain st where "view (d_store d) k = Some st" "State st = StateQueued"
      by (auto simp: recovered_def split: option.splits if_splits)
    then have "\<not> lock_ok (view (d_store d)) (LRunning k)" by simp
    then have "\<not> lock_on k (locks d ! j)" if "j < length (locks d)" for j
      using b(2) only that unfolding lock_inv_def running_only_def by (metis lock_on.simps(3) nth_mem)
    then show ?thesis by (simp add: countP_zero_iff)
  qed
  with recover_loop_dinv [OF inv keys, of "view (d_store d)"] show ?thesis
    by (auto simp: recover_def snapshot_spec [OF b(1)])
qed

end

section \<open>The dispatcher of a started program\<close>

text \<open>The executors and the dispatcher before anything is adopted.\<close>

definition boot ::
  "('r, 'o, 't, 'q) services \<Rightarrow> Config \<Rightarrow> ((string \<rightharpoonup> 't exec_impl) \<times> 'r store_value dispatcher) option" where
  "boot S cfg =
     (case open_store S (srv_Store (Server cfg)) of Inl e \<Rightarrow> None | Inr st \<Rightarrow>
      case open_executors S (gitlabPlatforms (Platforms cfg)) (Executors cfg) Map.empty of Inl e \<Rightarrow> None | Inr executors \<Rightarrow>
      case NewRouter (Rules cfg) (exec_values executors) of Inl e \<Rightarrow> None | Inr router \<Rightarrow>
      map_option (Pair executors) (NewDispatcher st router (app_options (Server cfg)) (Some metrics_New)
        (Some (history_New (srv_HistorySize (Server cfg)))) (sv_now S)))"

definition found_runs :: "('r, 'o, 't, 'q) services \<Rightarrow> Config \<Rightarrow> Repo list" where
  "found_runs S cfg = (case boot S cfg of None \<Rightarrow> []
     | Some (executors, d) \<Rightarrow> adoptions S (value_ops (sv_redis S)) executors (sv_perm S (map ec_Name (Executors cfg))) d)"

lemma start_boot:
  assumes "start S match cfg = Inr a"
  defines "ops \<equiv> value_ops (sv_redis S)" and "names \<equiv> sv_perm S (map ec_Name (Executors cfg))"
  obtains executors d0 runner srv mux where "boot S cfg = Some (executors, d0)" "initial d0" "d_procs d0 = []"
    "open_store S (srv_Store (Server cfg)) = Inr (d_store d0)" "d_now d0 = sv_now S" "d_opts d0 = app_options (Server cfg)"
    "app_disp a = (if store_Type (srv_Store (Server cfg)) = ''redis''
       then recover S ops match (adopt_executors S ops executors names d0) else adopt_executors S ops executors names d0)"
    "app_cfg a = cfg" "app_runner a = runner_Start runner" "open_platforms S (Platforms cfg) = Inr (app_platforms a)"
    "server_New (sv_ident S) (app_platforms a) = Some (srv, mux)" "app_mux a = mux"
    "app_server a = SetReady True (SetAPIToken (srv_APIToken (Server cfg)) srv)"
proof -
  note split = sum.splits prod.splits option.splits
  from assms(1) obtain l ps st m r d0 runner srv mux where
    p: "open_platforms S (Platforms cfg) = Inr ps" "open_store S (srv_Store (Server cfg)) = Inr st"
      "open_executors S (gitlabPlatforms (Platforms cfg)) (Executors cfg) Map.empty = Inr m"
      "NewRouter (Rules cfg) (exec_values m) = Inr r"
      "NewDispatcher st r (app_options (Server cfg)) (Some metrics_New) (Some (history_New (srv_HistorySize (Server cfg)))) (sv_now S) = Some d0"
      "server_New (sv_ident S) ps = Some (srv, mux)"
    and a: "a = \<lparr>app_cfg = cfg, app_level = l, app_platforms = ps, app_executors = m,
        app_disp = (if store_Type (srv_Store (Server cfg)) = ''redis''
          then recover S ops match (adopt_executors S ops m names d0) else adopt_executors S ops m names d0),
        app_runner = runner_Start runner, app_server = SetReady True (SetAPIToken (srv_APIToken (Server cfg)) srv), app_mux = mux\<rparr>"
    unfolding start_def Let_def ops_def names_def by (fastforce split: split)
  have boot: "boot S cfg = Some (m, d0)" by (simp add: boot_def p)
  have init: "initial d0" unfolding initial_def using p(4,5) by blast
  have d0: "d_store d0 = st" "d_now d0 = sv_now S" "d_opts d0 = app_options (Server cfg)" "d_procs d0 = []"
    using p(5) by (auto simp: NewDispatcher_def split: if_splits)
  show thesis by (rule that [OF boot init d0(4)]) (simp_all add: a p d0)
qed

lemma Adopt_run_opts: "d_opts (Adopt_run ops repo name d) = d_opts d"
  by (simp add: Adopt_run_def)

lemma adopt_runs_opts: "d_opts (adopt_runs ops name found d) = d_opts d"
  unfolding adopt_runs_def by (induction found arbitrary: d) (simp_all add: Adopt_run_opts)

lemma adopt_executors_opts: "d_opts (adopt_executors S ops executors names d) = d_opts d"
  by (induction names arbitrary: d) (auto simp: adopt_runs_opts split: option.split exec_impl.split sum.split prod.split)

lemma Enqueue_now_opts: "d_opts (Enqueue_now ops match ev d) = d_opts d"
  by (simp add: Enqueue_now_def Enqueue_queue_def Let_def split: prod.split QueueResult.split)

lemma recover_loop_opts: "d_opts (recover_loop ops match snap keys d) = d_opts d"
  by (induction keys arbitrary: d) (auto simp: Enqueue_now_opts split: option.split)

lemma recover_opts: "d_opts (recover S ops match d) = d_opts d"
  by (simp add: recover_def recover_loop_opts split: prod.split)

sublocale redis_client \<subseteq> vd: dispatch_store "value_ops R" "value_view val" "value_handles val" "value_inv val z" "redis_clock_ok z" match
  for match
  by unfold_locales

context redis_client
begin

lemma start_dinv:
  assumes start: "start S match cfg = Inr a" and R: "sv_redis S = R"
    and st: "open_store S (srv_Store (Server cfg)) = Inr st" "value_inv val z st" "redis_clock_ok z (sv_now S)"
    and keys: "\<And>m. distinct (sv_keys S m)"
    and found: "distinct (map Key (found_runs S cfg))"
      "\<forall>repo \<in> set (found_runs S cfg). case value_view val st (Key repo) of None \<Rightarrow> True | Some s \<Rightarrow> State s = StateRunning"
  shows "vd.dinv (dom (value_view val st)) (app_disp a) \<and> d_opts (app_disp a) = app_options (Server cfg)"
proof -
  let ?names = "sv_perm S (map ec_Name (Executors cfg))"
  obtain executors d0 runner srv mux where b: "boot S cfg = Some (executors, d0)" "initial d0" "d_procs d0 = []"
      "open_store S (srv_Store (Server cfg)) = Inr (d_store d0)" "d_now d0 = sv_now S" "d_opts d0 = app_options (Server cfg)"
      "app_disp a = (if store_Type (srv_Store (Server cfg)) = ''redis''
       then recover S (value_ops (sv_redis S)) match (adopt_executors S (value_ops (sv_redis S)) executors ?names d0)
       else adopt_executors S (value_ops (sv_redis S)) executors ?names d0)"
    by (rule start_boot [OF start])
  note disp = b(7) [unfolded R]
  have st0: "d_store d0 = st" using b(4) st(1) by simp
  let ?d = "adopt_executors S (value_ops R) executors ?names d0"
  have inv: "vd.dinv (dom (value_view val st)) d0"
    using vd.dinv_initial [OF b(2)] b(5) st0 st(2,3) by simp
  have runs: "found_runs S cfg = adoptions S (value_ops R) executors ?names d0" by (simp add: found_runs_def b(1) R)
  have only: "vd.running_only d0" by (simp add: vd.running_only_def b(3))
  have "\<forall>repo \<in> set (adoptions S (value_ops R) executors ?names d0). vd.adoptable d0 repo"
    using found(2) unfolding runs by (simp add: vd.adoptable_def b(3) st0 count_simps)
  with vd.adopt_executors_dinv [OF inv only found(1) [unfolded runs]]
  have d: "vd.dinv (dom (value_view val st)) ?d" "vd.running_only ?d" by blast+
  with vd.recover_dinv [OF d keys] show ?thesis
    by (simp add: disp adopt_executors_opts recover_opts b(6))
qed

end

section \<open>The steps of the program\<close>

text \<open>\<open>Ended\<close> is the return of nil, \<open>Failed\<close> the return of the error of \<open>ListenAndServe\<close>.\<close>

datatype phase = Serving | Stopping | Ended | Failed

text \<open>The program, the events that its running cron jobs still have to enqueue, and its phase.\<close>

record ('r, 't) life =
  life_app :: "('r, 't) app"
  life_jobs :: "Event list list"
  life_phase :: phase

definition serving :: "('r, 't) app \<Rightarrow> ('r, 't) life" where
  "serving a = \<lparr>life_app = a, life_jobs = [], life_phase = Serving\<rparr>"

definition alive :: "('r, 't) life \<Rightarrow> bool" where
  "alive L \<longleftrightarrow> life_phase L = Serving \<or> life_phase L = Stopping"

definition on_disp :: "('r store_value dispatcher \<Rightarrow> 'r store_value dispatcher) \<Rightarrow> ('r, 't) app \<Rightarrow> ('r, 't) app" where
  "on_disp f a = a\<lparr>app_disp := f (app_disp a)\<rparr>"

definition enqueue_event :: "(string \<Rightarrow> string \<Rightarrow> bool option) \<Rightarrow> Event option \<Rightarrow> 's dispatcher \<Rightarrow> 's dispatcher" where
  "enqueue_event match ev d = (case ev of None \<Rightarrow> d | Some e \<Rightarrow> Enqueue_call match e d)"

text \<open>A delivery to the platform \<open>i\<close>: the handler's event is enqueued, the metrics and the adapter's cache change.\<close>

definition deliver ::
  "(string \<Rightarrow> string \<Rightarrow> bool option) \<Rightarrow> hosting \<Rightarrow> http_request \<Rightarrow> body_stream \<Rightarrow> nat \<Rightarrow> ('r, 't) app \<Rightarrow> nat \<times> ('r, 't) app" where
  "deliver match W r stream i a =
     (case webhookHandler W r stream (case d_metrics (app_disp a) of Some m \<Rightarrow> m | None \<Rightarrow> metrics_New) (app_platforms a ! i) of
        (status, ev, m, p) \<Rightarrow> (status,
          on_disp (\<lambda>d. enqueue_event match ev (d\<lparr>d_metrics := Some m\<rparr>)) (a\<lparr>app_platforms := (app_platforms a)[i := p]\<rparr>)))"

fun adapter_DiscoverRepos ::
  "(string \<Rightarrow> bool option \<Rightarrow> int \<Rightarrow> string + (string list \<times> int)) \<Rightarrow>
   (string \<Rightarrow> int \<Rightarrow> string + ((string \<times> bool) list \<times> int)) \<Rightarrow> adapter \<Rightarrow> (string \<times> string + Repo list) option" where
  "adapter_DiscoverRepos listProjects listByOrg (AGitLab g) = gitlab_DiscoverRepos listProjects g"
| "adapter_DiscoverRepos listProjects listByOrg (AGitHub g) = github_DiscoverRepos listByOrg g"

text \<open>
  The steps: a goroutine of the dispatcher goes on or time passes; an executor saves or deletes a run
  handle; a webhook or trigger request arrives at its route; a crontab fires and its job enqueues the
  discovered repositories one by one; SIGHUP reloads the configuration file, whose content is then that of
  \<open>E\<close>; a signal begins the shutdown; the dispatcher's \<open>Shutdown\<close> returns, which ends the program; or the
  listener fails, which ends it at once.
\<close>

inductive life_step ::
  "('r, 'o, 't, 'q) services \<Rightarrow> validators \<Rightarrow> (string \<Rightarrow> string \<Rightarrow> bool option) \<Rightarrow> string \<Rightarrow> (go_time \<Rightarrow> bool) \<Rightarrow>
   ('r, 't) life \<Rightarrow> ('r, 't) life \<Rightarrow> bool"
  for S V match path clock_ok where
  goroutine: "alive L \<Longrightarrow> dstep (value_ops (sv_redis S)) match (app_disp (life_app L)) (LGo i c) d \<Longrightarrow>
    life_step S V match path clock_ok L (L\<lparr>life_app := (life_app L)\<lparr>app_disp := d\<rparr>\<rparr>)"
| tick: "alive L \<Longrightarrow> 0 \<le> dt \<Longrightarrow> clock_ok (d_now (app_disp (life_app L)) + dt) \<Longrightarrow>
    life_step S V match path clock_ok L (L\<lparr>life_app := on_disp (\<lambda>d. d\<lparr>d_now := d_now d + dt\<rparr>) (life_app L)\<rparr>)"
| save_handle: "alive L \<Longrightarrow>
    life_step S V match path clock_ok L (L\<lparr>life_app := on_disp (\<lambda>d. d\<lparr>d_store :=
      SaveRunHandle (value_ops (sv_redis S)) k data (d_store d)\<rparr>) (life_app L)\<rparr>)"
| delete_handle: "alive L \<Longrightarrow>
    life_step S V match path clock_ok L (L\<lparr>life_app := on_disp (\<lambda>d. d\<lparr>d_store :=
      DeleteRunHandle (value_ops (sv_redis S)) k (d_store d)\<rparr>) (life_app L)\<rparr>)"
| webhook: "alive L \<Longrightarrow> map_of (app_mux (life_app L)) (''POST'', url) = Some (Webhook_of i) \<Longrightarrow>
    i < length (app_platforms (life_app L)) \<Longrightarrow> deliver match W r stream i (life_app L) = (status, a) \<Longrightarrow>
    life_step S V match path clock_ok L (L\<lparr>life_app := a\<rparr>)"
| trigger: "alive L \<Longrightarrow> map_of (app_mux (life_app L)) (''POST'', url) = Some TriggerApi \<Longrightarrow>
    triggerHandler uni unmarshal (app_platforms (life_app L)) (app_server (life_app L)) r stream = (status, ev) \<Longrightarrow>
    life_step S V match path clock_ok L (L\<lparr>life_app := on_disp (enqueue_event match ev) (life_app L)\<rparr>)"
| cron_fires: "alive L \<Longrightarrow> (loc, tab, p) \<in> may_fire (app_runner (life_app L)) \<Longrightarrow>
    adapter_DiscoverRepos listProjects listByOrg p = Some discovered \<Longrightarrow>
    life_step S V match path clock_ok L (L\<lparr>life_jobs := life_jobs L @ [cron_events discovered]\<rparr>)"
| cron_enqueues: "alive L \<Longrightarrow> i < length (life_jobs L) \<Longrightarrow> life_jobs L ! i = ev # evs \<Longrightarrow>
    life_step S V match path clock_ok L
      (L\<lparr>life_app := on_disp (Enqueue_call match ev) (life_app L), life_jobs := (life_jobs L)[i := evs]\<rparr>)"
| sighup: "alive L \<Longrightarrow>
    life_step S V match path clock_ok L (L\<lparr>life_app := reload S (E :: error load_env) V path (life_app L)\<rparr>)"
| stop: "life_phase L = Serving \<Longrightarrow>
    life_step S V match path clock_ok L (L\<lparr>life_app := begin_shutdown (life_app L), life_phase := Stopping\<rparr>)"
| serve_error: "life_phase L = Serving \<Longrightarrow> life_step S V match path clock_ok L (L\<lparr>life_phase := Failed\<rparr>)"
| ended: "life_phase L = Stopping \<Longrightarrow> Shutdown ctx_err (app_disp (life_app L)) err d \<Longrightarrow>
    life_step S V match path clock_ok L (L\<lparr>life_app := (life_app L)\<lparr>app_disp := d\<rparr>, life_phase := Ended\<rparr>)"

inductive life_steps ::
  "('r, 'o, 't, 'q) services \<Rightarrow> validators \<Rightarrow> (string \<Rightarrow> string \<Rightarrow> bool option) \<Rightarrow> string \<Rightarrow> (go_time \<Rightarrow> bool) \<Rightarrow>
   ('r, 't) life \<Rightarrow> ('r, 't) life \<Rightarrow> bool"
  for S V match path clock_ok where
  born: "life_steps S V match path clock_ok L L"
| lives: "life_steps S V match path clock_ok L L1 \<Longrightarrow> life_step S V match path clock_ok L1 L2 \<Longrightarrow>
    life_steps S V match path clock_ok L L2"

section \<open>The invariant\<close>

lemma Enqueue_call_frame: "d_router (Enqueue_call match ev d) = d_router d \<and> d_opts (Enqueue_call match ev d) = d_opts d"
  by (simp add: Enqueue_call_def Let_def)

lemma enqueue_event_frame:
  "d_router (enqueue_event match ev d) = d_router d \<and> d_opts (enqueue_event match ev d) = d_opts d"
  by (cases ev) (simp_all add: enqueue_event_def Enqueue_call_frame)

text \<open>What a step may do to the dispatcher without touching the rest of the program.\<close>

lemma app_wf_frame:
  "app_wf V a \<Longrightarrow> app_cfg a' = app_cfg a \<Longrightarrow> app_executors a' = app_executors a \<Longrightarrow>
   d_router (app_disp a') = d_router (app_disp a) \<Longrightarrow> app_wf V a'"
  by (simp add: app_wf_def)

lemma webhook_name: "webhookHandler W r stream m p = (status, ev, m', p') \<Longrightarrow> adapter_Name p' = adapter_Name p"
  using ad.parse_name by (fastforce simp: webhookHandler_def split: option.splits prod.splits sum.splits webhook_error.splits)

lemma begin_shutdown_effect:
  "\<not> ready (app_server (begin_shutdown a)) \<and> may_fire (app_runner (begin_shutdown a)) = {}"
  by (simp add: begin_shutdown_def SetReady_def may_fire_Stop)

lemma reload_frame_facts:
  "app_platforms (reload S E V path a) = app_platforms a \<and> app_mux (reload S E V path a) = app_mux a
   \<and> app_runner (reload S E V path a) = app_runner a \<and> app_server (reload S E V path a) = app_server a
   \<and> Platforms (app_cfg (reload S E V path a)) = Platforms (app_cfg a)
   \<and> (\<exists>r. app_disp (reload S E V path a) = SetRouter r (app_disp a))"
proof -
  have "SetRouter (d_router (app_disp a)) (app_disp a) = app_disp a" by (simp add: SetRouter_def)
  then show ?thesis by (auto simp: reload_def split: sum.split intro: sym exI [of _ "d_router (app_disp a)"])
qed

context redis_client
begin

definition life_inv :: "validators \<Rightarrow> string set \<Rightarrow> ('a, 't) app \<Rightarrow> ('a, 't) life \<Rightarrow> bool" where
  "life_inv V stale a0 L \<longleftrightarrow> vd.dinv stale (app_disp (life_app L)) \<and> app_wf V (life_app L)
     \<and> d_opts (app_disp (life_app L)) = d_opts (app_disp a0)
     \<and> map adapter_Name (app_platforms (life_app L)) = map adapter_Name (app_platforms a0)
     \<and> app_mux (life_app L) = app_mux a0 \<and> Platforms (app_cfg (life_app L)) = Platforms (app_cfg a0)
     \<and> (ready (app_server (life_app L)) \<longleftrightarrow> life_phase L \<in> {Serving, Failed})
     \<and> (life_phase L \<in> {Stopping, Ended} \<longrightarrow> may_fire (app_runner (life_app L)) = {})"

lemma dinv_enqueue_event: "vd.dinv stale d \<Longrightarrow> vd.dinv stale (enqueue_event match ev d)"
  by (cases ev) (simp_all add: enqueue_event_def vd.dinv_enqueue)

lemma dinv_router:
  "vd.dinv stale d \<Longrightarrow> NewRouter rs executors = Inr (d_router d') \<Longrightarrow> d' = SetRouter r d \<Longrightarrow> vd.dinv stale d'"
  by (auto simp: vd.dinv_def SetRouter_def token_inv_def safe_inv_def intro: NewRouter_wf)

lemma life_inv_disp:
  assumes "life_inv V stale a0 L" and "vd.dinv stale d" and "d_router d = d_router (app_disp (life_app L))"
    and "d_opts d = d_opts (app_disp (life_app L))"
  shows "life_inv V stale a0 (L\<lparr>life_app := (life_app L)\<lparr>app_disp := d\<rparr>\<rparr>)"
  using assms app_wf_frame [of V "life_app L" "(life_app L)\<lparr>app_disp := d\<rparr>"] by (simp add: life_inv_def)

lemma deliver_inv:
  assumes inv: "life_inv V stale a0 L" and i: "i < length (app_platforms (life_app L))"
    and deliver: "deliver match W r stream i (life_app L) = (status, a)"
  shows "life_inv V stale a0 (L\<lparr>life_app := a\<rparr>)"
proof -
  let ?a = "life_app L" and ?d = "app_disp (life_app L)"
  obtain ev m p where h: "webhookHandler W r stream (case d_metrics ?d of Some m \<Rightarrow> m | None \<Rightarrow> metrics_New) (app_platforms ?a ! i)
      = (status, ev, m, p)" and a: "a = on_disp (\<lambda>d. enqueue_event match ev (d\<lparr>d_metrics := Some m\<rparr>))
        (?a\<lparr>app_platforms := (app_platforms ?a)[i := p]\<rparr>)"
    using deliver by (auto simp: deliver_def split: prod.splits)
  have "vd.dinv stale ?d" using inv by (simp add: life_inv_def)
  then have "vd.dinv stale (?d\<lparr>d_metrics := Some m\<rparr>)" by (simp add: vd.dinv_def token_inv_def safe_inv_def)
  then have "vd.dinv stale (enqueue_event match ev (?d\<lparr>d_metrics := Some m\<rparr>))" by (rule dinv_enqueue_event)
  from life_inv_disp [OF inv this]
  have "life_inv V stale a0 (L\<lparr>life_app := ?a\<lparr>app_disp := enqueue_event match ev (?d\<lparr>d_metrics := Some m\<rparr>)\<rparr>\<rparr>)"
    by (simp add: enqueue_event_frame)
  moreover have "map adapter_Name ((app_platforms ?a)[i := p]) = map adapter_Name (app_platforms ?a)"
    using webhook_name [OF h] i by (simp add: map_update list_update_same_conv)
  ultimately show ?thesis unfolding a on_disp_def by (simp add: life_inv_def app_wf_def)
qed

lemma reload_inv:
  assumes inv: "life_inv V stale a0 L"
  shows "life_inv V stale a0 (L\<lparr>life_app := reload S E V path (life_app L)\<rparr>)"
proof -
  let ?a = "life_app L" and ?d = "app_disp (life_app L)"
  have wf: "app_wf V (reload S E V path ?a)" using inv by (simp add: life_inv_def reload_wf)
  obtain r where r: "app_disp (reload S E V path ?a) = SetRouter r ?d" using reload_frame_facts by blast
  have "vd.dinv stale ?d" using inv by (simp add: life_inv_def)
  from dinv_router [OF this _ r] wf have "vd.dinv stale (app_disp (reload S E V path ?a))"
    unfolding app_wf_def by blast
  with inv wf reload_frame_facts [of S E V path ?a] r show ?thesis by (simp add: life_inv_def SetRouter_def)
qed

lemma life_step_inv:
  assumes inv: "life_inv V stale a0 L" and step: "life_step S V match path (redis_clock_ok z) L L'" and R: "sv_redis S = R"
  shows "life_inv V stale a0 L'"
proof -
  let ?a = "life_app L" and ?d = "app_disp (life_app L)"
  have d: "vd.dinv stale ?d" using inv by (simp add: life_inv_def)
  have b: "value_inv val z (d_store ?d)" using d by (simp add: vd.dinv_def)
  note frame = life_inv_disp [OF inv]
  show ?thesis using step
  proof (cases rule: life_step.cases)
    case (goroutine i c d')
    then have "vd.dinv stale d'" using vd.dinv_dstep [OF d] R by fastforce
    moreover have "d_router d' = d_router ?d \<and> d_opts d' = d_opts ?d" using goroutine(3) go_step_frame by fastforce
    ultimately show ?thesis using goroutine(1) frame by simp
  next
    case (tick dt)
    then have "vd.dinv stale (?d\<lparr>d_now := d_now ?d + dt\<rparr>)" using d by (auto simp: vd.dinv_def token_inv_def safe_inv_def)
    with tick(1) frame show ?thesis by (simp add: on_disp_def)
  next
    case (save_handle k data)
    have "vd.dinv stale (?d\<lparr>d_store := SaveRunHandle (value_ops R) k data (d_store ?d)\<rparr>)"
      using vd.dinv_store [OF d] vs.save_spec [OF b refl] by blast
    with save_handle(1) frame show ?thesis by (simp add: on_disp_def R)
  next
    case (delete_handle k)
    have "vd.dinv stale (?d\<lparr>d_store := DeleteRunHandle (value_ops R) k (d_store ?d)\<rparr>)"
      using vd.dinv_store [OF d] vs.delete_spec [OF b refl] by blast
    with delete_handle(1) frame show ?thesis by (simp add: on_disp_def R)
  next
    case (webhook url i W r stream status a)
    with deliver_inv [OF inv webhook(4,5)] show ?thesis by simp
  next
    case (trigger url uni unmarshal r stream status ev)
    from frame [OF dinv_enqueue_event [OF d, of match ev]] trigger(1) show ?thesis
      by (simp add: on_disp_def enqueue_event_frame)
  next
    case (cron_fires loc tab p listProjects listByOrg discovered)
    with inv show ?thesis by (simp add: life_inv_def)
  next
    case (cron_enqueues i ev evs)
    from frame [OF vd.dinv_enqueue [OF d, of match ev]] cron_enqueues(1) show ?thesis
      by (simp add: on_disp_def Enqueue_call_frame life_inv_def)
  next
    case (sighup E)
    with reload_inv [OF inv] show ?thesis by simp
  next
    case stop
    have "life_inv V stale a0 (L\<lparr>life_app := begin_shutdown ?a, life_phase := Stopping\<rparr>)"
      using inv begin_shutdown_effect [of ?a] by (simp add: life_inv_def app_wf_def begin_shutdown_def)
    with stop show ?thesis by simp
  next
    case serve_error
    with inv show ?thesis by (simp add: life_inv_def)
  next
    case (ended ctx_err err d')
    then have "d' = ?d\<lparr>d_cancelled := True\<rparr>" by (auto elim: Shutdown.cases)
    moreover have "vd.dinv stale (?d\<lparr>d_cancelled := True\<rparr>)" using d by (simp add: vd.dinv_def token_inv_def safe_inv_def)
    ultimately show ?thesis using ended(1,2) inv by (simp add: life_inv_def app_wf_def)
  qed
qed

lemma life_steps_inv:
  assumes "life_steps S V match path (redis_clock_ok z) L L'" and "life_inv V stale a0 L" and "sv_redis S = R"
  shows "life_inv V stale a0 L'"
  using assms by (induction rule: life_steps.induct) (auto intro: life_step_inv)

end

section \<open>The life of a started program\<close>

context redis_client
begin

lemma started_life_inv:
  assumes "valid_config V cfg" and "start S match cfg = Inr a0" and "sv_redis S = R"
    and "open_store S (srv_Store (Server cfg)) = Inr st" "value_inv val z st" "redis_clock_ok z (sv_now S)"
    and "\<And>m. distinct (sv_keys S m)" and "distinct (map Key (found_runs S cfg))"
    and "\<forall>repo \<in> set (found_runs S cfg). case value_view val st (Key repo) of None \<Rightarrow> True | Some s \<Rightarrow> State s = StateRunning"
  shows "life_inv V (dom (value_view val st)) a0 (serving a0)"
proof -
  obtain srv where "app_server a0 = SetReady True srv" by (rule start_boot [OF assms(2)])
  then have "ready (app_server a0)" by (simp add: SetReady_def)
  with start_dinv [OF assms(2-9)] start_wf [OF assms(1,2)] show ?thesis by (simp add: life_inv_def serving_def)
qed

lemma program_exclusion:
  assumes "life_inv V stale a0 L"
  defines "d \<equiv> app_disp (life_app L)"
  shows "(\<forall>i j k. i < length (d_procs d) \<and> j < length (d_procs d) \<and> lock_on k (lock_of (d_procs d ! i)) \<and> lock_on k (lock_of (d_procs d ! j)) \<longrightarrow> i = j)
    \<and> (\<forall>k. value_view val (d_store d) k \<noteq> None \<longrightarrow> k \<in> stale \<or> (\<exists>i < length (d_procs d). lock_on k (lock_of (d_procs d ! i))))
    \<and> int (countP holds_token (d_procs d)) \<le> opt_MaxConcurrent (d_opts d)"
proof -
  have inv: "vd.dinv stale d" using assms(1) by (simp add: life_inv_def d_def)
  then have "token_inv d" by (simp add: vd.dinv_def)
  then show ?thesis using vd.mutual_exclusion [OF inv] vd.entry_owner [OF inv] unfolding token_inv_def by metis
qed

end

text \<open>The platforms of a started program are those of its configuration, in their order.\<close>

lemma start_names:
  assumes "valid_config V cfg" and "start S match cfg = Inr a"
  shows "map adapter_Name (app_platforms a) = map pc_Name (Platforms cfg)"
proof -
  have types: "\<forall>pc \<in> set (Platforms cfg). pc_Type pc \<in> {PlatformGitLab, PlatformGitHub}"
    using assms(1) by (auto simp: valid_config_def valid_platform_def)
  have "open_platforms S (Platforms cfg) = Inr (app_platforms a)" by (rule start_boot [OF assms(2)])
  from open_platforms_adapters [OF types this] show ?thesis
    by (induction rule: list_all2_induct) (simp_all add: adapter_of_def)
qed

section \<open>The command line\<close>

record flags =
  fl_config :: string
  fl_version :: bool
  fl_validate :: bool

text \<open>The exit code of \<open>main\<close>; \<open>ret\<close> is whether \<open>run\<close> on a path returned nil.\<close>

definition main_exit :: "'e load_env \<Rightarrow> validators \<Rightarrow> (string \<Rightarrow> bool) \<Rightarrow> flags \<Rightarrow> nat" where
  "main_exit E V ret f =
     (if fl_version f then 0
      else if fl_validate f then (case Load E V (fl_config f) of Inl err \<Rightarrow> 1 | Inr cfg \<Rightarrow> 0)
      else if ret (fl_config f) then 0 else 1)"

text \<open>With \<open>-validate\<close> the exit code tells whether the file is one from which the program can be configured.\<close>

lemma validate_exit_valid:
  "main_exit E V ret \<lparr>fl_config = path, fl_version = False, fl_validate = True\<rparr> = 0 \<longleftrightarrow>
     (\<exists>cfg. Load E V path = Inr cfg \<and> valid_config V cfg)"
  using Load_valid [of E V path] by (cases "Load E V path") (simp_all add: main_exit_def)

end
