(* ===== verification/Spec2Isabelle.thy ===== *)
theory Spec2Isabelle
  imports Lifecycle
begin

text \<open>
  \<^bold>\<open>renovate-server.\<close> The program of \<open>src/\<close> runs the dependency bot Renovate on the repositories of
  GitLab and GitHub. Webhooks, a manual trigger and cron schedules request runs; a dispatcher
  serialises them per repository, with debounce, coalescing, a deferred rerun, a global concurrency
  limit and a timeout; executors run them as GitLab pipelines, Kubernetes jobs or Docker containers.

  \<^bold>\<open>The parts and how they interact.\<close> \<open>main.run\<close> loads the configuration, opens platforms, store and
  executors, builds router and dispatcher, adopts the runs that are still in flight, requeues what the
  store shows as queued, starts the schedules and serves HTTP. A handler asks its platform adapter to
  authenticate and parse a delivery and passes the event to \<open>Dispatcher.Enqueue\<close>. \<open>Enqueue\<close> routes the repository
  and asks the store (\<open>Queue\<close>); when the store answers \<open>Queued\<close> a goroutine waits for the debounce, takes a
  semaphore token, marks the run as started, calls the executor, records metric and history, and asks
  the store (\<open>FinishRun\<close>) whether a request came in meanwhile, which it enqueues again. SIGHUP replaces the
  router; a signal ends the program.

  \<^bold>\<open>Theories, in the order of dependence.\<close>
  \<^item> \<open>Prelude\<close>: types of times and durations, counting in lists, shared lemmas. \<open>GoTime\<close>: the parts of the package
    \<open>time\<close> that the code uses (RFC 3339 with fractions, \<open>Duration.Round\<close> and \<open>String\<close>), with the round trip of
    timestamps. \<open>Regex\<close>: a matcher for the expressions of \<open>regexp\<close> that the code uses. \<open>Crypto\<close>: base64, SHA-256 and
    HMAC. \<open>ServeMux\<close>: patterns of \<open>net/http\<close> and their conflicts.
  \<^item> \<open>History\<close>: \<open>internal/history/history.go\<close>, a ring buffer; \<open>Record\<close> and \<open>Entries\<close> implement a list of the newest
    entries.
  \<^item> \<open>Store\<close>: \<open>internal/store/store.go\<close>. The interface is a record of operations; the abstract specification is a map
    from keys to statuses; the locale \<open>store_contract\<close> says that an implementation acts on its view as the
    specification does. \<open>Memory_Store\<close> (\<open>memory.go\<close>) interprets it. \<open>Redis_Store\<close> (\<open>redis.go\<close>) models the Lua scripts
    over a record of Redis commands, whose documented behaviour is the locale \<open>redis_server\<close>, and the
    client with a network that may lose calls or replies; \<open>redis_client\<close> is shown to meet \<open>store_contract\<close>, and a
    reference server shows that its assumptions can hold.
  \<^item> \<open>Config\<close>, \<open>Config_Load\<close>: \<open>internal/config\<close>, the schema, the defaults, validation with its errors in their order, and
    loading with the expansion of environment references. Validation is equivalent to the declarative
    predicate \<open>valid_config\<close>.
  \<^item> \<open>Platform\<close>, \<open>Checkbox\<close>, \<open>Forge\<close>, \<open>GitLab\<close>, \<open>GitHub\<close>: \<open>internal/platform\<close>, repositories and events, the allow list, the
    detection of ticked boxes, and the two adapters with authentication, payload mapping and discovery.
    \<open>platform_adapter\<close> is the interface of an adapter.
  \<^item> \<open>Executor\<close>, \<open>Exec_Base\<close>, \<open>Docker\<close>, \<open>GitLab_CI\<close>, \<open>Kubernetes\<close>: \<open>internal/executor\<close>. The locale \<open>run_executor\<close> is the demand
    that \<open>Run\<close> returns once its context has ended; each executor interprets it.
  \<^item> \<open>Router\<close>, \<open>Metrics\<close>, \<open>Dispatcher\<close>, \<open>Dispatch_Properties\<close>: \<open>internal/dispatch\<close> and \<open>internal/metrics\<close>. Every goroutine is a
    process with one step per access to shared state; \<open>dstep\<close> interleaves them with callers, the clock,
    reloads, adoptions and cancellation. The locale \<open>dispatch_store\<close> proves the invariant \<open>dinv\<close> over any store that meets
    the contract; it is interpreted for both stores.
  \<^item> \<open>Server\<close>, \<open>Cron\<close>, \<open>Program\<close>, \<open>Lifecycle\<close>: \<open>internal/server\<close>, \<open>internal/schedule\<close> and \<open>cmd/renovate-server/main.go\<close>, from the
    command line to the end of the program. \<open>life_step\<close> composes all components.
  \<^item> This theory: the properties of the composed program.

  \<^bold>\<open>State and operations.\<close> Structs are records with the fields of the code, prefixed where names would
  clash (\<open>d_\<close> dispatcher, \<open>ec_\<close> executor section, \<open>gl_\<close> GitLab adapter and so on); methods are functions that
  return the new state; errors are values of sum types; a panic is \<^const>\<open>None\<close> or \<open>Panics\<close>. Operations under a
  mutex or in a Lua script are one step. Integers are unbounded where the code cannot overflow, and
  wrap where it can (\<open>time.Since\<close>, conversions of seconds).

  \<^bold>\<open>What the lemmas show.\<close> Safety of the dispatcher: one owner per repository, the concurrency limit, no
  panic. Progress: no deadlock, a bound on the steps of goroutines, every accepted request is followed by a run, and
  so is every delivery that is answered 202. Refinement of both stores, and that the Redis store
  fails closed. Exactness of validation, loading, routing, authentication, the trigger, the routes and the startup.
  Round trips of signatures, run handles and jobs. Restart: adoption and recovery. The invariant of the whole
  program over its life.

  \<^bold>\<open>Loops and bounds.\<close> Loops over data are structural. The poll loops of the executors and the page loops of
  discovery may run forever and are \<open>partial_function (option)\<close>; that they return is proved where the server or the context
  lets them. \<open>TrimSpace\<close> takes the length of its argument as fuel, since each round removes a character.

  \<^bold>\<open>Parameters.\<close> What is not in \<open>src/\<close> is an argument: the client packages of GitLab, GitHub, Redis, Docker and Kubernetes,
  JSON, YAML, templates, the glob matcher, quantities, crontabs and time zones, the Unicode tables, the file
  system and the environment, the clock, and the iteration order of maps.

  \<^bold>\<open>Not modelled.\<close> Log lines; the encoding of the status, history and metrics pages; the construction of the
  clusters' and Docker's clients from the environment (its outcome is an argument of the startup); the transport of
  HTTP below the handlers; tests, charts and build files. The webhook path of a request is taken as the
  literal pattern it was registered with.
\<close>

section \<open>Startup\<close>

text \<open>
  C12. From a configuration that loads, \<open>run\<close> comes up exactly when: the log level and format are known, the
  clients of the platforms can be made, Redis answers if it is the store, the templates, cluster and
  Docker clients of the configured executors are available, \<open>maxConcurrentRuns\<close> is not negative, and the
  webhook paths are well-formed patterns none of which conflicts with another or with the trigger
  endpoint (for literal paths: they are distinct, and none is that of the trigger endpoint). So validation leaves no other
  reason to fail: rules always name opened executors, pipeline executors always find their GitLab
  platform, and crontabs and time zones are always accepted.
\<close>

theorem startup_succeeds_exactly:
  assumes "Load E V path = Inr cfg" and "LoadLocation V = sv_loadLocation S" and "ParseStandard V = sv_addFunc S"
  shows "(\<exists>a. run_startup S E V match path = Inr a) \<longleftrightarrow>
     level_UnmarshalText (sv_upper S) (log_Level (srv_Log (Server cfg))) \<noteq> None
     \<and> log_Format (srv_Log (Server cfg)) \<in> {''json'', ''text''}
     \<and> (\<forall>pc \<in> set (Platforms cfg). client_ok S pc)
     \<and> (store_Type (srv_Store (Server cfg)) = ''redis'' \<longrightarrow> redis_up S (store_Redis (srv_Store (Server cfg))))
     \<and> (\<forall>ec \<in> set (Executors cfg). backend_ok S ec)
     \<and> 0 \<le> srv_MaxConcurrentRuns (Server cfg)
     \<and> routes_ok (sv_ident S) (map (\<lambda>pc. wh_Path (pc_Webhook pc)) (Platforms cfg))"
proof -
  have "(\<exists>a. run_startup S E V match path = Inr a) \<longleftrightarrow> (\<exists>a. start S match cfg = Inr a)"
    using assms(1) by (auto simp: run_startup_def split: sum.splits)
  then show ?thesis unfolding start_ok [OF Load_valid [OF assms(1)] assms(2,3)] .
qed

definition sample_V :: validators where
  "sample_V = \<lparr>LoadLocation = (\<lambda>_. True), ParseStandard = (\<lambda>_. True), ParseQuantity = (\<lambda>_. True), ValidatePattern = (\<lambda>_. True)\<rparr>"

definition sample_platform :: PlatformConfig where
  "sample_platform = \<lparr>pc_Name = ''gl'', pc_Type = ''gitlab'', pc_BaseURL = ''https://gitlab.example'', pc_Token = ''t'',
     pc_BotEmail = '''', pc_DashboardIssueTitle = '''', pc_AllowAnyCheckbox = False,
     pc_MRFilter = \<lparr>mr_SourceBranchPrefixes = None, mr_Authors = []\<rparr>,
     pc_Webhook = \<lparr>wh_Path = ''/hooks/gl'', wh_Secret = ''s3cret'', wh_SigningSecret = ''''\<rparr>, pc_Events = [''push''],
     pc_Discovery = \<lparr>disc_Groups = [''g''], disc_ExcludeArchived = True\<rparr>,
     pc_Schedule = \<lparr>sched_Crontabs = [''0 3 * * *''], sched_Timezone = ''Europe/Berlin''\<rparr>\<rparr>"

definition sample_shadow :: ExecutorConfig where
  "sample_shadow = \<lparr>ec_Name = ''shadow'', ec_Type = ''noop'', ec_Platform = '''', ec_Project = '''', ec_Ref = '''',
     ec_TriggerToken = '''', ec_Variables = [], ec_Inputs = [], ec_PollInterval = 0, ec_Namespace = '''', ec_Image = '''',
     ec_CachePVC = '''', ec_JobTTL = 0, ec_Pod = \<lparr>pod_Resources = \<lparr>res_Requests = [], res_Limits = []\<rparr>, pod_NodeSelector = [],
       pod_Tolerations = [], pod_ServiceAccountName = '''', pod_ImagePullSecrets = [], pod_ActiveDeadlineSeconds = 0\<rparr>,
     ec_CacheVolume = '''', ec_Pull = False, ec_Env = []\<rparr>"

definition sample_raw :: "bool \<Rightarrow> Config" where
  "sample_raw off = \<lparr>Server = \<lparr>srv_Listen = '''', srv_Log = \<lparr>log_Level = ''warn+2'', log_Format = ''''\<rparr>, srv_Debounce = 0,
       srv_MaxConcurrentRuns = 0, srv_RunTimeout = 0, srv_HistorySize = 0, srv_APIToken = ''token'',
       srv_Store = \<lparr>store_Type = '''', store_Redis = \<lparr>redis_URL = '''', redis_KeyPrefix = '''', redis_TTL = 0\<rparr>\<rparr>\<rparr>,
     Platforms = [sample_platform], Executors = [sample_shadow],
     Rules = [\<lparr>rule_Match = ''**'', rule_Executor = ''shadow'', rule_Disabled = off\<rparr>]\<rparr>"

definition sample_load :: "bool \<Rightarrow> unit load_env" where
  "sample_load off = \<lparr>ReadFile = (\<lambda>_. Inr ''''), Unmarshal = (\<lambda>_. Inr (Node DocumentNode '''' '''' [])),
     Decode = (\<lambda>_. Inr (sample_raw off)), LookupEnv = (\<lambda>_. None)\<rparr>"

definition sample_services :: "(rdb, unit, string, string) services" where
  "sample_services = \<lparr>sv_upper = (\<lambda>s. s), sv_gitlabClient = (\<lambda>t u. True), sv_githubClient = (\<lambda>t u. True),
     sv_parseURL = (\<lambda>u. Some ()), sv_redisClient = (\<lambda>_. client (sample_redis [])), sv_ping = (\<lambda>_. True),
     sv_redis = ref_redis, sv_zone = 0, sv_net = [], sv_ci = sample_ci_env, sv_kubeClient = None,
     sv_listJobs = (\<lambda>ns sel. Inr []), sv_dockerClient = None, sv_ident = ident0, sv_loadLocation = (\<lambda>_. True), sv_addFunc = (\<lambda>_. True),
     sv_order = (\<lambda>m. []), sv_keys = (\<lambda>m. []), sv_perm = (\<lambda>names. names), sv_now = 0\<rparr>"

lemma sample_loads: "Load (sample_load off) sample_V path = Inr (applyDefaults (sample_raw off))"
proof -
  have "validate sample_V (applyDefaults (sample_raw True)) = None" "validate sample_V (applyDefaults (sample_raw False)) = None"
    by code_simp+
  then have "validate sample_V (applyDefaults (sample_raw off)) = None" by (cases off) simp_all
  then show ?thesis by (simp add: Load_def sample_load_def Let_def)
qed

lemma sample_conditions:
  defines "cfg \<equiv> applyDefaults (sample_raw False)"
  shows "level_UnmarshalText (sv_upper sample_services) (log_Level (srv_Log (Server cfg))) = Some 6"
    and "log_Format (srv_Log (Server cfg)) = ''json''" and "store_Type (srv_Store (Server cfg)) = ''memory''"
    and "srv_MaxConcurrentRuns (Server cfg) = 4" and "map (\<lambda>pc. wh_Path (pc_Webhook pc)) (Platforms cfg) = [''/hooks/gl'']"
    and "client_ok sample_services pc" and "Executors cfg = [sample_shadow]" and "backend_ok sample_services sample_shadow"
    and "LoadLocation sample_V = sv_loadLocation sample_services" and "ParseStandard sample_V = sv_addFunc sample_services"
    and "routes_ok (sv_ident sample_services) [''/hooks/gl'']"
proof -
  show "level_UnmarshalText (sv_upper sample_services) (log_Level (srv_Log (Server cfg))) = Some 6"
    "log_Format (srv_Log (Server cfg)) = ''json''" "store_Type (srv_Store (Server cfg)) = ''memory''"
    "srv_MaxConcurrentRuns (Server cfg) = 4" "map (\<lambda>pc. wh_Path (pc_Webhook pc)) (Platforms cfg) = [''/hooks/gl'']"
    unfolding cfg_def by code_simp+
  have "plain_path ''/hooks/gl''" by code_simp
  then show "routes_ok (sv_ident sample_services) [''/hooks/gl'']" by (simp add: routes_ok_plain)
qed (simp_all add: cfg_def client_ok_def sample_services_def applyDefaults_def sample_raw_def sample_shadow_def
    default_executor_def backend_ok_def Let_def sample_V_def)

theorem startup_succeeds_exactly_witness:
  "\<exists>a. run_startup sample_services (sample_load False) sample_V sample_match ''config.yaml'' = Inr a"
  using startup_succeeds_exactly [OF sample_loads [of False], of sample_services sample_match "''config.yaml''"]
  by (simp add: sample_conditions)

section \<open>Reload\<close>

text \<open>
  C13. SIGHUP is all or nothing, for any sequence of reloads after a startup. The configuration in force
  stays valid, the router in force is always the one that its rules describe, and nothing but the
  router, the rules and the log level ever changes. A reload takes effect exactly when the new file
  loads and has the same platforms and executors; then the new rules are in force. Otherwise
  everything stays as it was.
\<close>

theorem reload_is_all_or_nothing:
  assumes "run_startup S E V match path = Inr a0" and "a = foldl (\<lambda>a E. reload S E V path a) a0 Es"
  shows "valid_config V (app_cfg a)
    \<and> NewRouter (Rules (app_cfg a)) (exec_values (app_executors a)) = Inr (d_router (app_disp a))
    \<and> a = a0\<lparr>app_disp := SetRouter (d_router (app_disp a)) (app_disp a0), app_level := app_level a,
            app_cfg := (app_cfg a0)\<lparr>Rules := Rules (app_cfg a)\<rparr>\<rparr>
    \<and> (case Load E' V path of
          Inr c \<Rightarrow> if Platforms c = Platforms (app_cfg a) \<and> list_all2 same_executor (Executors c) (Executors (app_cfg a))
                   then Rules (app_cfg (reload S E' V path a)) = Rules c else reload S E' V path a = a
        | Inl err \<Rightarrow> reload S E' V path a = a)"
proof -
  obtain cfg where "Load E V path = Inr cfg" "start S match cfg = Inr a0"
    using assms(1) by (auto simp: run_startup_def split: sum.splits)
  then have wf0: "app_wf V a0" using start_wf [OF Load_valid] by blast
  have "app_wf V a \<and> reload_frame a0 a = a"
    unfolding assms(2) by (rule reloads_keep [OF wf0 reload_frame_self])
  then have wf: "app_wf V a" and fr: "reload_frame a0 a = a" by blast+
  have "case Load E' V path of
          Inr c \<Rightarrow> if Platforms c = Platforms (app_cfg a) \<and> list_all2 same_executor (Executors c) (Executors (app_cfg a))
                   then Rules (app_cfg (reload S E' V path a)) = Rules c else reload S E' V path a = a
        | Inl err \<Rightarrow> reload S E' V path a = a"
  proof (cases "Load E' V path")
    case (Inr c)
    then show ?thesis using reload_accepts [OF wf Inr, of S] by (auto simp: reload_def)
  qed (simp add: reload_def)
  with wf fr show ?thesis unfolding app_wf_def reload_frame_def by simp
qed

lemma sample_starts: "\<exists>a. run_startup sample_services (sample_load False) sample_V sample_match ''config.yaml'' = Inr a"
proof -
  have "\<exists>a. start sample_services sample_match (applyDefaults (sample_raw False)) = Inr a"
    using start_ok [OF Load_valid [OF sample_loads [of False]], of sample_services sample_match]
    by (simp add: sample_conditions)
  then show ?thesis by (auto simp: run_startup_def sample_loads)
qed

theorem reload_is_all_or_nothing_witness:
  "\<exists>a. run_startup sample_services (sample_load False) sample_V sample_match ''config.yaml'' = Inr a
     \<and> map rule_Disabled (Rules (app_cfg a)) = [False]
     \<and> map rule_Disabled (Rules (app_cfg (reload sample_services (sample_load True) sample_V ''config.yaml'' a))) = [True]"
proof -
  obtain a where a: "run_startup sample_services (sample_load False) sample_V sample_match ''config.yaml'' = Inr a"
    using sample_starts by blast
  have "start sample_services sample_match (applyDefaults (sample_raw False)) = Inr a"
    using a by (cases "start sample_services sample_match (applyDefaults (sample_raw False))")
      (simp_all add: run_startup_def sample_loads)
  then have cfg: "app_cfg a = applyDefaults (sample_raw False)"
    using start_wf [OF Load_valid [OF sample_loads [of False]]] by blast
  have "Platforms (applyDefaults (sample_raw True)) = Platforms (app_cfg a)"
    "list_all2 same_executor (Executors (applyDefaults (sample_raw True))) (Executors (app_cfg a))"
    unfolding cfg by (simp_all add: applyDefaults_def sample_raw_def default_executor_def sample_shadow_def
      same_executor_def same_map_def Let_def)
  with reload_is_all_or_nothing [OF a, of a "[]" "sample_load True"]
  have "Rules (app_cfg (reload sample_services (sample_load True) sample_V ''config.yaml'' a))
      = Rules (applyDefaults (sample_raw True))" by (simp add: sample_loads)
  with a cfg show ?thesis by (simp add: applyDefaults_def sample_raw_def)
qed

section \<open>The running program\<close>


lemma sample_found: "found_runs sample_services (applyDefaults (sample_raw False)) = []"
  by code_simp


section \<open>Recovery\<close>

text \<open>
  C11. Recovery after a restart: over any store that meets the contract, the loop over the snapshot gives
  every repository that was queued and is enabled by the rules exactly one new goroutine and a fresh
  queued entry, drops the entries of queued repositories that the rules disable, and leaves every other
  entry, in particular the running ones, as it is. The events are for the recorded repositories,
  provided that no platform name contains a colon.
\<close>

theorem recovery_requeues:
  assumes store: "store_contract ops view handles invar clock_ok" "invar (d_store d)" "clock_ok (d_now d)"
    and keys: "distinct (sv_keys S (view (d_store d)))" "set (sv_keys S (view (d_store d))) = dom (view (d_store d))"
    and names: "snap = view (d_store d)" "route = (\<lambda>ev. Route_of match (d_router d) (repo_FullName (ev_Repo ev)))"
  shows "d_procs (recover S ops match d) = d_procs d @ recovered_procs route snap (sv_keys S snap)
    \<and> view (d_store (recover S ops match d)) = (\<lambda>k. case recovered snap k of
          None \<Rightarrow> snap k
        | Some ev \<Rightarrow> if route_Disabled (route ev) then None
            else Some \<lparr>State = StateQueued, Reason = ReasonRerun, Since = d_now d, PendingRerun = False\<rparr>)
    \<and> (\<forall>repo st. CHR '':'' \<notin> set (repo_Platform repo) \<and> snap (Key repo) = Some st \<and> State st = StateQueued \<longrightarrow>
          recovered snap (Key repo) = Some \<lparr>ev_Repo = repo, ev_Reason = ReasonRerun\<rparr>)"
proof -
  note contract = store_contract.snapshot_spec [OF store(1,2)]
  obtain s where s: "recover_loop ops match snap (sv_keys S snap) d
      = d\<lparr>d_store := s, d_procs := d_procs d @ recovered_procs route snap (sv_keys S snap)\<rparr>"
    "view s = recovered_view route (d_now d) snap (sv_keys S snap) (view (d_store d))"
    using dispatch_store.recover_loop_effect [OF dispatch_store.intro [OF store(1)] store(2,3) keys(1), of match snap]
    unfolding names by blast
  then have rec: "recover S ops match d
      = d\<lparr>d_store := s, d_procs := d_procs d @ recovered_procs route snap (sv_keys S snap)\<rparr>"
    using contract by (simp add: recover_def names)
  have "k \<in> set (sv_keys S snap)" if "recovered snap k = Some ev" for k ev
    using that keys(2) by (auto simp: recovered_def names split: option.splits)
  then have "view s k = (case recovered snap k of None \<Rightarrow> snap k
      | Some ev \<Rightarrow> if route_Disabled (route ev) then None
          else Some \<lparr>State = StateQueued, Reason = ReasonRerun, Since = d_now d, PendingRerun = False\<rparr>)" for k
    using s(2) by (auto simp: recovered_view_def names split: option.split)
  then show ?thesis unfolding rec by (auto simp: recovered_def split_key_Key)
qed


text \<open>A repository that was queued when the previous instance stopped.\<close>

definition stale_d :: "memory dispatcher" where
  "stale_d = sample_d\<lparr>d_store := snd (memory_Queue 5 (Key sample_repo) ReasonPush NewMemory), d_now := 60 * second\<rparr>"

theorem recovery_requeues_witness:
  "d_procs (recover (sample_services\<lparr>sv_keys := (\<lambda>m. [Key sample_repo])\<rparr>) memory_ops sample_match stale_d)
     = [Spawned \<lparr>ev_Repo = sample_repo, ev_Reason = ReasonRerun\<rparr> (Some \<lparr>ex_Name = ''k8s''\<rparr>)]"
proof -
  let ?S = "sample_services\<lparr>sv_keys := (\<lambda>m. [Key sample_repo])\<rparr>"
  have dom: "dom (memory_view (d_store stale_d)) = {Key sample_repo}"
    by (auto simp: stale_d_def memory_Queue_def NewMemory_def memory_view_apply split: if_splits)
  have keys: "distinct (sv_keys ?S (memory_view (d_store stale_d)))"
    "set (sv_keys ?S (memory_view (d_store stale_d))) = dom (memory_view (d_store stale_d))"
    unfolding dom by simp_all
  have "recovered_procs (\<lambda>ev. Route_of sample_match (d_router stale_d) (repo_FullName (ev_Repo ev)))
      (memory_view (d_store stale_d)) [Key sample_repo]
      = [Spawned \<lparr>ev_Repo = sample_repo, ev_Reason = ReasonRerun\<rparr> (Some \<lparr>ex_Name = ''k8s''\<rparr>)]" "d_procs stale_d = []"
    by code_simp+
  with recovery_requeues [OF mem.store_contract_axioms TrueI TrueI keys refl refl, of sample_match] show ?thesis by simp
qed

section \<open>From a delivery to a run\<close>


definition pushed_event :: Event where
  "pushed_event = \<lparr>ev_Repo = \<lparr>repo_Platform = ''gl'', repo_FullName = ''top/api''\<rparr>, ev_Reason = ReasonPush\<rparr>"

text \<open>The queueing of the event, its debounce, its run and its end.\<close>

definition delivery_labels :: "label list" where
  "delivery_labels = [LGo 0 Proceed, LGo 1 Proceed, LTick (30 * second), LGo 1 Proceed, LGo 1 Proceed, LGo 1 Proceed,
     LGo 1 Proceed, LGo 1 (Return None), LGo 1 Proceed, LGo 1 Proceed, LGo 1 Proceed, LGo 1 Proceed]"

lemma delivery_ends:
  "case exec_labels memory_ops sample_match delivery_labels (Enqueue_call sample_match pushed_event sample_d) of
     None \<Rightarrow> False | Some d2 \<Rightarrow> list_all (\<lambda>p. p = Done) (d_procs d2)"
  by code_simp

lemma delivery_enabled:
  "list_all (\<lambda>n. \<not> route_Disabled (Route_of sample_match (d_router sample_d) (drop n (Key (ev_Repo pushed_event)))))
     [0..<Suc (length (Key (ev_Repo pushed_event)))]"
  by code_simp

lemma delivery_accepted:
  "\<exists>m' p'. webhookHandler sample_hosting (sample_request ''s3cret'') (Body ''{}'') metrics_New (AGitLab sample_gitlab)
     = (202, Some pushed_event, m', p')"
proof -
  let ?h = "webhookHandler sample_hosting (sample_request ''s3cret'') (Body ''{}'') metrics_New (AGitLab sample_gitlab)"
  have "fst ?h = 202" "fst (snd ?h) = Some pushed_event" by code_simp+
  then show ?thesis by (cases ?h) auto
qed


section \<open>Executors\<close>




end
